theory Spec2Isabelle
  imports Complex_Main
begin

section \<open>Tensors and errors\<close>

text \<open>
  A tensor is its shape together with its contiguous row-major storage, read by flat
  offset. Only the offsets below the product of the shape belong to the tensor. The
  values are real numbers where a property is one of exact arithmetic, and 32-bit floats
  with their infinities and their NaN where a property is about those.
\<close>

record 'a tensor =
  shape :: "nat list"
  elem :: "nat \<Rightarrow> 'a"

definition numel :: "'a tensor \<Rightarrow> nat" where
  "numel t = prod_list (shape t)"

definition of_list :: "nat list \<Rightarrow> real list \<Rightarrow> real tensor" where
  "of_list s xs = \<lparr>shape = s, elem = (\<lambda>i. if i < length xs then xs ! i else 0)\<rparr>"

definition scale :: "real \<Rightarrow> real tensor \<Rightarrow> real tensor" where
  \<comment> \<open>\<open>c * t\<close> for a Python scalar \<open>c\<close>\<close>
  "scale c t = \<lparr>shape = shape t, elem = (\<lambda>i. c * elem t i)\<rparr>"

subsection \<open>32-bit floats\<close>

text \<open>
  A float is a real number within the range of the format, an infinity or NaN. An
  operation whose exact result is of a magnitude that the format rounds to an infinity
  returns the infinity of its sign, and the operations on infinities and NaN are those of
  the standard. A result within the range is kept as it is: the rounding to 24 bits, the
  sign of zero and the underflow of small numbers are not modelled.
\<close>

datatype fl = Num real | PInf | NInf | NaN

definition float32_overflow :: real where
  \<comment> \<open>half a unit in the last place above the largest float, \<open>(2 - 2\<^sup>-\<^sup>2\<^sup>3) * 2\<^sup>1\<^sup>2\<^sup>7\<close>: a
      result of at least this magnitude is rounded to an infinity\<close>
  "float32_overflow = (2 - 1 / 2 ^ 24) * 2 ^ 127"

definition in_range :: "real \<Rightarrow> bool" where
  "in_range r \<longleftrightarrow> \<bar>r\<bar> < float32_overflow"

definition ovf :: "real \<Rightarrow> fl" where
  "ovf r = (if float32_overflow \<le> r then PInf else if r \<le> - float32_overflow then NInf
            else Num r)"

fun f_neg :: "fl \<Rightarrow> fl" where
  "f_neg (Num a) = Num (- a)"
| "f_neg PInf = NInf"
| "f_neg NInf = PInf"
| "f_neg NaN = NaN"

fun f_add :: "fl \<Rightarrow> fl \<Rightarrow> fl" where
  "f_add (Num a) (Num b) = ovf (a + b)"
| "f_add NaN y = NaN"
| "f_add x NaN = NaN"
| "f_add PInf NInf = NaN"
| "f_add NInf PInf = NaN"
| "f_add PInf y = PInf"
| "f_add x PInf = PInf"
| "f_add NInf y = NInf"
| "f_add x NInf = NInf"

definition f_sub :: "fl \<Rightarrow> fl \<Rightarrow> fl" where
  "f_sub x y = f_add x (f_neg y)"

fun f_mul :: "fl \<Rightarrow> fl \<Rightarrow> fl" where
  "f_mul (Num a) (Num b) = ovf (a * b)"
| "f_mul NaN y = NaN"
| "f_mul x NaN = NaN"
| "f_mul (Num a) PInf = (if a = 0 then NaN else if 0 < a then PInf else NInf)"
| "f_mul (Num a) NInf = (if a = 0 then NaN else if 0 < a then NInf else PInf)"
| "f_mul PInf (Num b) = (if b = 0 then NaN else if 0 < b then PInf else NInf)"
| "f_mul NInf (Num b) = (if b = 0 then NaN else if 0 < b then NInf else PInf)"
| "f_mul PInf PInf = PInf"
| "f_mul NInf NInf = PInf"
| "f_mul PInf NInf = NInf"
| "f_mul NInf PInf = NInf"

fun f_div :: "fl \<Rightarrow> fl \<Rightarrow> fl" where
  "f_div (Num a) (Num b) =
     (if b = 0 then (if a = 0 then NaN else if 0 < a then PInf else NInf) else ovf (a / b))"
| "f_div NaN y = NaN"
| "f_div x NaN = NaN"
| "f_div (Num a) PInf = Num 0"
| "f_div (Num a) NInf = Num 0"
| "f_div PInf (Num b) = (if 0 \<le> b then PInf else NInf)"
| "f_div NInf (Num b) = (if 0 \<le> b then NInf else PInf)"
| "f_div PInf PInf = NaN"
| "f_div PInf NInf = NaN"
| "f_div NInf PInf = NaN"
| "f_div NInf NInf = NaN"

fun f_log10 :: "fl \<Rightarrow> fl" where
  "f_log10 (Num x) = (if 0 < x then ovf (log 10 x) else if x = 0 then NInf else NaN)"
| "f_log10 PInf = PInf"
| "f_log10 NInf = NaN"
| "f_log10 NaN = NaN"

definition f_sum :: "fl list \<Rightarrow> fl" where
  \<comment> \<open>a sum, accumulated from zero in the order of the list; the library is free in the
      order, which matters only to the rounding and to a partial sum that leaves the range\<close>
  "f_sum xs = foldl f_add (Num 0) xs"

fun f_relu :: "fl \<Rightarrow> fl" where
  \<comment> \<open>the rectifier keeps a NaN\<close>
  "f_relu (Num a) = Num (max 0 a)"
| "f_relu PInf = PInf"
| "f_relu NInf = Num 0"
| "f_relu NaN = NaN"

definition nonneg :: "fl \<Rightarrow> bool" where
  \<comment> \<open>\<open>0 \<le> x\<close> on floats: false of NaN\<close>
  "nonneg x = (case x of Num a \<Rightarrow> 0 \<le> a | PInf \<Rightarrow> True | NInf \<Rightarrow> False | NaN \<Rightarrow> False)"

definition to_f32 :: "real tensor \<Rightarrow> fl tensor" where
  \<comment> \<open>a tensor of finite floats\<close>
  "to_f32 t = \<lparr>shape = shape t, elem = (\<lambda>i. Num (elem t i))\<rparr>"

text \<open>
  The exceptions of the source and of the numeric library. A shape error of the
  separation model carries the stage of \<open>forward\<close> that raised it.
\<close>

datatype site = ConvEncoder | FlattenProj | PosEncodingAdd | QueryReshape | MemoryReshape
  | Decoder | OutputReshape

datatype error = ValueError | RuntimeError | IndexError | ZeroDivisionError
  | UnboundLocalError | ShapeError site

section \<open>The SI-SDR loss\<close>

text \<open>
  \<open>SI_SDR_Loss.forward\<close>, first in exact arithmetic. Float division by zero and a logarithm
  of a non-positive number do not raise: the library returns an infinity or a NaN, which
  every later operation of this function carries to the result. The model returns \<open>None\<close>
  for such a value.
\<close>

definition fdiv :: "real \<Rightarrow> real \<Rightarrow> real option" where
  "fdiv a b = (if b = 0 then None else Some (a / b))"

definition flog10 :: "real \<Rightarrow> real option" where
  "flog10 x = (if x \<le> 0 then None else Some (log 10 x))"

definition row :: "'a tensor \<Rightarrow> nat \<Rightarrow> nat \<Rightarrow> 'a list" where
  \<comment> \<open>row \<open>r\<close> of \<open>t.reshape(rows, n)\<close>\<close>
  "row t n r = map (\<lambda>j. elem t (r * n + j)) [0..<n]"

definition center :: "real list \<Rightarrow> real list" where
  \<comment> \<open>\<open>x - torch.mean(x, dim=-1, keepdim=True)\<close>; the mean of an empty row is a NaN that
      is subtracted from no element\<close>
  "center xs = map (\<lambda>x. x - sum_list xs / real (length xs)) xs"

definition broadcastable :: "nat \<Rightarrow> nat \<Rightarrow> bool" where
  "broadcastable m n \<longleftrightarrow> m = n \<or> m = 1 \<or> n = 1"

definition bcast :: "('a \<Rightarrow> 'a \<Rightarrow> 'a) \<Rightarrow> 'a list \<Rightarrow> 'a list \<Rightarrow> 'a list" where
  \<comment> \<open>an elementwise operation on two rows whose widths are broadcastable\<close>
  "bcast f xs ys =
     (if length xs = length ys then map2 f xs ys
      else if length ys = 1 then map (\<lambda>x. f x (hd ys)) xs
      else map (f (hd xs)) ys)"

definition sumsq :: "real list \<Rightarrow> real" where
  \<comment> \<open>\<open>torch.sum(x ** 2, dim=-1)\<close>\<close>
  "sumsq xs = sum_list (map (\<lambda>x. x\<^sup>2) xs)"

definition si_sdr_row :: "real \<Rightarrow> real list \<Rightarrow> real list \<Rightarrow> real option" where
  "si_sdr_row eps p t =
     (let predictions = center p;
          targets = center t
      in case fdiv (sum_list (bcast (*) predictions targets) + eps) (sumsq targets + eps) of
           None \<Rightarrow> None
         | Some alpha \<Rightarrow>
             (let scaled_target = map ((*) alpha) targets
              in case fdiv (sumsq scaled_target)
                        (sumsq (bcast (-) predictions scaled_target) + eps) of
                   None \<Rightarrow> None
                 | Some si_sdr \<Rightarrow> map_option ((*) 10) (flog10 (si_sdr + eps))))"

definition neg_mean :: "real option list \<Rightarrow> real option" where
  \<comment> \<open>\<open>-si_sdr.mean()\<close>, not finite as soon as one entry is not\<close>
  "neg_mean xs = map_option (\<lambda>ys. - (sum_list ys / real (length ys))) (those xs)"

definition SI_SDR_forward :: "real \<Rightarrow> real tensor \<Rightarrow> real tensor \<Rightarrow> error + real option" where
  "SI_SDR_forward eps predictions targets =
     (case shape predictions of
        [B, S, F, T] \<Rightarrow>
          (let R = B * S in
           if R = 0 then Inl RuntimeError
           else if numel targets mod R \<noteq> 0 then Inl RuntimeError
           else
             (let np = F * T;
                  nt = numel targets div R
              in if \<not> broadcastable np nt then Inl RuntimeError
                 else Inr (neg_mean (map (\<lambda>r. si_sdr_row eps (row predictions np r)
                                                  (row targets nt r)) [0..<R]))))
      | _ \<Rightarrow> Inl ValueError)"

text \<open>
  The same function on floats: every operation can leave the range and return an
  infinity, and the infinities and NaN go through the operations that follow.
\<close>

definition f_center :: "fl list \<Rightarrow> fl list" where
  "f_center xs =
     (let mean = f_div (f_sum xs) (Num (real (length xs))) in map (\<lambda>x. f_sub x mean) xs)"

definition f_sumsq :: "fl list \<Rightarrow> fl" where
  "f_sumsq xs = f_sum (map (\<lambda>x. f_mul x x) xs)"

definition si_sdr_row_f32 :: "fl \<Rightarrow> fl list \<Rightarrow> fl list \<Rightarrow> fl" where
  "si_sdr_row_f32 eps p t =
     (let predictions = f_center p;
          targets = f_center t;
          alpha = f_div (f_add (f_sum (bcast f_mul predictions targets)) eps)
                    (f_add (f_sumsq targets) eps);
          scaled_target = map (f_mul alpha) targets;
          si_sdr = f_div (f_sumsq scaled_target)
                     (f_add (f_sumsq (bcast f_sub predictions scaled_target)) eps)
      in f_mul (Num 10) (f_log10 (f_add si_sdr eps)))"

definition SI_SDR_forward_f32 :: "fl \<Rightarrow> fl tensor \<Rightarrow> fl tensor \<Rightarrow> error + fl" where
  "SI_SDR_forward_f32 eps predictions targets =
     (case shape predictions of
        [B, S, F, T] \<Rightarrow>
          (let R = B * S in
           if R = 0 then Inl RuntimeError
           else if numel targets mod R \<noteq> 0 then Inl RuntimeError
           else
             (let np = F * T;
                  nt = numel targets div R
              in if \<not> broadcastable np nt then Inl RuntimeError
                 else
                   (let si_sdr = map (\<lambda>r. si_sdr_row_f32 eps (row predictions np r)
                                          (row targets nt r)) [0..<R]
                    in Inr (f_neg (f_div (f_sum si_sdr) (Num (real R)))))))
      | _ \<Rightarrow> Inl ValueError)"

text \<open>
  The values that the exact computation goes through, and the condition that each of
  them is within the range of the floats. For a sum the condition is on the sum of the
  absolute values, which bounds the partial sums in whatever order the terms are added.
\<close>

definition sums_in_range :: "real list \<Rightarrow> bool" where
  "sums_in_range xs \<longleftrightarrow> in_range (sum_list (map abs xs))"

definition all_in_range :: "real list \<Rightarrow> bool" where
  "all_in_range xs = list_all in_range xs"

definition center_in_range :: "real list \<Rightarrow> bool" where
  "center_in_range xs \<longleftrightarrow>
     sums_in_range xs \<and> in_range (sum_list xs / real (length xs)) \<and> all_in_range (center xs)"

definition sumsq_in_range :: "real list \<Rightarrow> bool" where
  "sumsq_in_range xs \<longleftrightarrow>
     all_in_range (map (\<lambda>x. x * x) xs) \<and> sums_in_range (map (\<lambda>x. x * x) xs)"

definition row_alpha :: "real \<Rightarrow> real list \<Rightarrow> real list \<Rightarrow> real" where
  \<comment> \<open>the scale factor \<open>alpha\<close> of a row\<close>
  "row_alpha eps p t =
     (sum_list (bcast (*) (center p) (center t)) + eps) / (sumsq (center t) + eps)"

definition row_scaled :: "real \<Rightarrow> real list \<Rightarrow> real list \<Rightarrow> real list" where
  \<comment> \<open>\<open>scaled_target\<close>\<close>
  "row_scaled eps p t = map ((*) (row_alpha eps p t)) (center t)"

definition row_residual :: "real \<Rightarrow> real list \<Rightarrow> real list \<Rightarrow> real" where
  \<comment> \<open>the energy of \<open>predictions - scaled_target\<close>\<close>
  "row_residual eps p t = sumsq (bcast (-) (center p) (row_scaled eps p t))"

definition row_ratio :: "real \<Rightarrow> real list \<Rightarrow> real list \<Rightarrow> real" where
  "row_ratio eps p t = sumsq (row_scaled eps p t) / (row_residual eps p t + eps)"

definition row_score :: "real \<Rightarrow> real list \<Rightarrow> real list \<Rightarrow> real" where
  "row_score eps p t = 10 * log 10 (row_ratio eps p t + eps)"

definition row_in_range :: "real \<Rightarrow> real list \<Rightarrow> real list \<Rightarrow> bool" where
  "row_in_range eps p t \<longleftrightarrow>
     center_in_range p \<and> center_in_range t
     \<and> all_in_range (bcast (*) (center p) (center t))
     \<and> sums_in_range (bcast (*) (center p) (center t))
     \<and> in_range (sum_list (bcast (*) (center p) (center t)) + eps)
     \<and> sumsq_in_range (center t) \<and> in_range (sumsq (center t) + eps)
     \<and> in_range (row_alpha eps p t)
     \<and> all_in_range (row_scaled eps p t) \<and> sumsq_in_range (row_scaled eps p t)
     \<and> all_in_range (bcast (-) (center p) (row_scaled eps p t))
     \<and> sumsq_in_range (bcast (-) (center p) (row_scaled eps p t))
     \<and> in_range (row_residual eps p t + eps)
     \<and> in_range (row_ratio eps p t) \<and> in_range (row_ratio eps p t + eps)
     \<and> in_range (log 10 (row_ratio eps p t + eps)) \<and> in_range (row_score eps p t)"

definition loss_in_range :: "real \<Rightarrow> real tensor \<Rightarrow> real tensor \<Rightarrow> bool" where
  \<comment> \<open>for two tensors of one four-dimensional shape\<close>
  "loss_in_range eps P G \<longleftrightarrow>
     (case shape P of
        [B, S, F, T] \<Rightarrow>
          in_range eps
          \<and> list_all (\<lambda>r. row_in_range eps (row P (F * T) r) (row G (F * T) r)) [0..<B * S]
          \<and> sums_in_range
                (map (\<lambda>r. row_score eps (row P (F * T) r) (row G (F * T) r)) [0..<B * S])
          \<and> in_range (sum_list
                (map (\<lambda>r. row_score eps (row P (F * T) r) (row G (F * T) r)) [0..<B * S])
                  / real (B * S))
      | _ \<Rightarrow> False)"

text \<open>
  The algorithm as the specification words it, for two tensors of shape \<open>(B, S, F, T)\<close>:
  the vector of a (batch, source) pair is read by its four indices.
\<close>

definition flatten_pair :: "real tensor \<Rightarrow> nat \<Rightarrow> nat \<Rightarrow> nat \<Rightarrow> nat \<Rightarrow> nat \<Rightarrow> real list" where
  "flatten_pair t S F T b s =
     concat (map (\<lambda>f. map (\<lambda>k. elem t (((b * S + s) * F + f) * T + k)) [0..<T]) [0..<F])"

definition zero_mean :: "real list \<Rightarrow> real list" where
  "zero_mean v = map (\<lambda>x. x - sum_list v / real (length v)) v"

definition inner :: "real list \<Rightarrow> real list \<Rightarrow> real" where
  "inner u v = (\<Sum>i<length u. u ! i * v ! i)"

definition energy :: "real list \<Rightarrow> real" where
  "energy v = inner v v"

definition spec_score :: "real \<Rightarrow> real list \<Rightarrow> real list \<Rightarrow> real" where
  "spec_score eps p0 t0 =
     (let p = zero_mean p0;
          t = zero_mean t0;
          alpha = (inner p t + eps) / (energy t + eps);
          scaled = map (\<lambda>x. alpha * x) t;
          ratio = energy scaled / (energy (map2 (-) p scaled) + eps)
      in 10 * log 10 (ratio + eps))"

definition spec_loss :: "real \<Rightarrow> real tensor \<Rightarrow> real tensor \<Rightarrow> nat \<Rightarrow> nat \<Rightarrow> nat \<Rightarrow> nat \<Rightarrow> real" where
  "spec_loss eps P G B S F T =
     - ((\<Sum>b<B. \<Sum>s<S. spec_score eps (flatten_pair P S F T b s) (flatten_pair G S F T b s))
        / real (B * S))"

section \<open>The separation model\<close>

text \<open>
  \<open>SpectrogramSeparator\<close>. The convolutional stack and the two transformer stacks are
  library modules: the model keeps their shape contracts and leaves their values open,
  NaN and the infinities included. The parameters of the last linear layer are kept,
  since the output is computed from them. The head count and the layer count do not
  enter any shape. \<open>training\<close> is the mode that \<open>model.train()\<close> and \<open>model.eval()\<close> set.
\<close>

record separator =
  n_mels :: nat
  seq_len :: nat
  n_sources :: nat
  d_model :: nat
  training :: bool
  out_weight :: "nat \<Rightarrow> fl"  \<comment> \<open>storage of the weight of \<open>output_proj\<close>, shape \<open>(n_mels, d_model)\<close>\<close>
  out_bias :: "nat \<Rightarrow> fl"

definition separator_unnamed :: "bool \<Rightarrow> (nat \<Rightarrow> fl) \<Rightarrow> (nat \<Rightarrow> fl) \<Rightarrow> separator" where
  \<comment> \<open>\<open>SpectrogramSeparator()\<close> with the defaults of the unnamed notebook\<close>
  "separator_unnamed mode W b =
     \<lparr>n_mels = 128, seq_len = 20000, n_sources = 4, d_model = 256, training = mode,
      out_weight = W, out_bias = b\<rparr>"

definition separator_optimized :: "bool \<Rightarrow> (nat \<Rightarrow> fl) \<Rightarrow> (nat \<Rightarrow> fl) \<Rightarrow> separator" where
  \<comment> \<open>\<open>SpectrogramSeparator()\<close> with the defaults of the optimized notebook\<close>
  "separator_optimized mode W b =
     \<lparr>n_mels = 128, seq_len = 800, n_sources = 4, d_model = 256, training = mode,
      out_weight = W, out_bias = b\<rparr>"

definition reshape_infer :: "nat \<Rightarrow> nat list \<Rightarrow> nat option" where
  \<comment> \<open>the size that \<open>reshape(known..., -1)\<close> infers for \<open>-1\<close> on \<open>n\<close> elements; the
      library refuses when the known sizes multiply to zero or do not divide \<open>n\<close>\<close>
  "reshape_infer n known =
     (let k = prod_list known in if 0 < k \<and> n mod k = 0 then Some (n div k) else None)"

definition broadcast_dim :: "nat \<Rightarrow> nat \<Rightarrow> nat option" where
  "broadcast_dim a b =
     (if a = b then Some a else if a = 1 then Some b else if b = 1 then Some a else None)"

definition linear :: "nat \<Rightarrow> nat \<Rightarrow> (nat \<Rightarrow> fl) \<Rightarrow> (nat \<Rightarrow> fl) \<Rightarrow> fl tensor \<Rightarrow> fl tensor" where
  \<comment> \<open>\<open>nn.Linear(n_in, n_out)\<close> on a tensor whose last size is \<open>n_in\<close>\<close>
  "linear n_in n_out W b t =
     \<lparr>shape = butlast (shape t) @ [n_out],
      elem = (\<lambda>i. f_add (f_sum (map (\<lambda>j. f_mul (elem t ((i div n_out) * n_in + j))
                                            (W ((i mod n_out) * n_in + j))) [0..<n_in]))
                     (b (i mod n_out)))\<rparr>"

definition relu :: "fl tensor \<Rightarrow> fl tensor" where
  "relu t = \<lparr>shape = shape t, elem = (\<lambda>i. f_relu (elem t i))\<rparr>"

definition reshape :: "nat list \<Rightarrow> 'a tensor \<Rightarrow> 'a tensor option" where
  \<comment> \<open>a reshape to sizes that are all given keeps the storage, and is refused when the
      number of elements differs\<close>
  "reshape s t = (if prod_list s = numel t then Some \<lparr>shape = s, elem = elem t\<rparr> else None)"

definition permute_0132 :: "'a tensor \<Rightarrow> 'a tensor" where
  \<comment> \<open>\<open>permute(0, 1, 3, 2)\<close> of a four-dimensional tensor\<close>
  "permute_0132 t =
     (case shape t of
        [a, b, c, d] \<Rightarrow>
          \<lparr>shape = [a, b, d, c],
           elem = (\<lambda>i. elem t (((i div (d * c)) * c + i mod c) * d + (i div c) mod d))\<rparr>
      | _ \<Rightarrow> t)"

definition forward :: "separator \<Rightarrow> (nat \<Rightarrow> fl) \<Rightarrow> fl tensor \<Rightarrow> error + fl tensor" where
  \<comment> \<open>\<open>dec\<close> is the storage of the tensor that the decoder returns\<close>
  "forward m dec x =
     (case shape x of
        [] \<Rightarrow> Inl IndexError
      | [B, M, T] \<Rightarrow>
          \<comment> \<open>\<open>unsqueeze(1)\<close>, \<open>conv_encoder\<close>: \<open>(B, 1, M, T)\<close> to \<open>(B, 128, M, T)\<close>; the
              kernel needs a row and a column, and batch normalization in training mode
              more than one value per channel\<close>
          if M = 0 \<or> T = 0 then Inl (ShapeError ConvEncoder)
          else if training m \<and> B * M * T = 1 then Inl (ShapeError ConvEncoder)
          \<comment> \<open>\<open>permute\<close>, \<open>reshape(B, T, C * M)\<close>, \<open>flatten_proj\<close>\<close>
          else if 128 * M \<noteq> 128 * n_mels m then Inl (ShapeError FlattenProj)
          else
            \<comment> \<open>\<open>x + self.pos_encoding[:T]\<close>\<close>
            (case broadcast_dim T (min T (seq_len m)) of
               None \<Rightarrow> Inl (ShapeError PosEncodingAdd)
             | Some T' \<Rightarrow>
                 (let S = n_sources m in
                  \<comment> \<open>\<open>source_queries.expand(B, -1, -1, -1).reshape(B*S, T, -1)\<close>\<close>
                  case reshape_infer (B * S * seq_len m * d_model m) [B * S, T] of
                    None \<Rightarrow> Inl (ShapeError QueryReshape)
                  | Some dq \<Rightarrow>
                      \<comment> \<open>\<open>memory.unsqueeze(1).expand(-1, S, -1, -1).reshape(B*S, T, -1)\<close>\<close>
                      (case reshape_infer (B * S * T' * d_model m) [B * S, T] of
                         None \<Rightarrow> Inl (ShapeError MemoryReshape)
                       | Some dm \<Rightarrow>
                           if dq \<noteq> d_model m \<or> dm \<noteq> d_model m then Inl (ShapeError Decoder)
                           else
                             (let output = \<lparr>shape = [B * S, T, d_model m], elem = dec\<rparr>;
                                  output = relu (linear (d_model m) (n_mels m)
                                             (out_weight m) (out_bias m) output)
                              in case reshape [B, S, T, n_mels m] output of
                                   None \<Rightarrow> Inl (ShapeError OutputReshape)
                                 | Some output \<Rightarrow> Inr (permute_0132 output)))))
      | _ \<Rightarrow> Inl (ShapeError ConvEncoder))"

section \<open>The dataset\<close>

text \<open>
  \<open>SpectrogramDataset\<close>: the two collections are kept as they come, one entry per
  sample along the leading axis. The constructor compares nothing.
\<close>

record ('a, 'b) SpectrogramDataset =
  data_X :: "'a list"  \<comment> \<open>\<open>self.X\<close>\<close>
  data_y :: "'b list"  \<comment> \<open>\<open>self.y\<close>\<close>

definition SpectrogramDataset_init :: "'a list \<Rightarrow> 'b list \<Rightarrow> error + ('a, 'b) SpectrogramDataset" where
  "SpectrogramDataset_init mixtures sources = Inr \<lparr>data_X = mixtures, data_y = sources\<rparr>"

definition len :: "('a, 'b) SpectrogramDataset \<Rightarrow> nat" where
  "len ds = length (data_X ds)"

definition index :: "'a list \<Rightarrow> int \<Rightarrow> error + 'a" where
  \<comment> \<open>\<open>t[idx]\<close> on the leading axis; a negative index counts from the end\<close>
  "index xs idx =
     (let n = int (length xs);
          j = (if idx < 0 then n + idx else idx)
      in if 0 \<le> j \<and> j < n then Inr (xs ! nat j) else Inl IndexError)"

definition getitem :: "('a, 'b) SpectrogramDataset \<Rightarrow> int \<Rightarrow> error + 'a \<times> 'b" where
  "getitem ds idx =
     (case index (data_X ds) idx of
        Inl e \<Rightarrow> Inl e
      | Inr a \<Rightarrow> (case index (data_y ds) idx of Inl e \<Rightarrow> Inl e | Inr b \<Rightarrow> Inr (a, b)))"

fun fetch :: "('a, 'b) SpectrogramDataset \<Rightarrow> nat list \<Rightarrow> error + ('a \<times> 'b) list" where
  \<comment> \<open>the items a loader asks for in one pass, in the order of its sampler\<close>
  "fetch ds [] = Inr []"
| "fetch ds (i # is) =
     (case getitem ds (int i) of
        Inl e \<Rightarrow> Inl e
      | Inr p \<Rightarrow> (case fetch ds is of Inl e \<Rightarrow> Inl e | Inr ps \<Rightarrow> Inr (p # ps)))"

section \<open>The training loops\<close>

text \<open>
  The numerics of a run are opaque: what the loops read from them is the loss of every
  batch, the state dictionaries of model and optimizer when an epoch has been trained,
  and, for the gradient scaler of the mixed-precision branch, whether the gradients
  accumulated up to a batch are free of infinities and NaN.
\<close>

record ('m, 'o) numerics =
  n_train :: nat  \<comment> \<open>\<open>len(train_loader)\<close>\<close>
  n_test :: nat  \<comment> \<open>\<open>len(test_loader)\<close>\<close>
  train_loss :: "nat \<Rightarrow> nat \<Rightarrow> real"  \<comment> \<open>epoch, batch: the value of the criterion\<close>
  test_loss :: "nat \<Rightarrow> nat \<Rightarrow> real"
  grads_finite :: "nat \<Rightarrow> nat \<Rightarrow> bool"  \<comment> \<open>epoch, batch: no infinity and no NaN in the gradients\<close>
  model_state_dict :: "nat \<Rightarrow> 'm"
  optimizer_state_dict :: "nat \<Rightarrow> 'o"

datatype pyfloat = PosInf | Fin real

definition less_than :: "real \<Rightarrow> pyfloat \<Rightarrow> bool" where
  \<comment> \<open>\<open>avg < best_loss\<close>\<close>
  "less_than a b = (case b of PosInf \<Rightarrow> True | Fin v \<Rightarrow> a < v)"

datatype ('m, 'o) entry = EpochIndex nat | ModelState 'm | OptimizerState 'o | Loss real

type_synonym ('m, 'o) checkpoint = "string \<rightharpoonup> ('m, 'o) entry"

text \<open>
  What a loop does to the optimizer and to the disk, in order. \<open>Backward b\<close> is the forward
  and backward pass of batch \<open>b\<close>; \<open>OptimizerStep\<close> is a call of \<open>optimizer.step()\<close>, by the
  loop or by the gradient scaler; \<open>ScalerStep\<close> is the call \<open>scaler.step(optimizer)\<close> of the
  mixed-precision branch, which calls \<open>optimizer.step()\<close> unless it finds an infinity or a
  NaN in the gradients; \<open>TorchSave path epoch\<close> is a write of the checkpoint.
\<close>

datatype event = ZeroGrad | Backward nat | OptimizerStep | ScalerStep | ScalerUpdate
  | TorchSave string nat

record ('m, 'o) state =
  best_loss :: pyfloat
  files :: "string \<rightharpoonup> ('m, 'o) checkpoint"
  trace :: "event list"

definition py_mean :: "real list \<Rightarrow> error + real" where
  \<comment> \<open>\<open>total / len(loader)\<close> on Python floats\<close>
  "py_mean xs = (if length xs = 0 then Inl ZeroDivisionError
                 else Inr (sum_list xs / real (length xs)))"

definition mean_train_loss :: "('m, 'o) numerics \<Rightarrow> nat \<Rightarrow> real" where
  \<comment> \<open>the mean of the training losses of an epoch\<close>
  "mean_train_loss r epoch = sum_list (map (train_loss r epoch) [0..<n_train r]) / real (n_train r)"

definition mean_test_loss :: "('m, 'o) numerics \<Rightarrow> nat \<Rightarrow> real" where
  \<comment> \<open>the mean validation loss of an epoch, over the batches of the test loader\<close>
  "mean_test_loss r epoch = sum_list (map (test_loss r epoch) [0..<n_test r]) / real (n_test r)"

fun run_epochs :: "(nat \<Rightarrow> 's \<Rightarrow> error + 's) \<Rightarrow> nat list \<Rightarrow> 's \<Rightarrow> error + 's" where
  "run_epochs f [] s = Inr s"
| "run_epochs f (epoch # rest) s =
     (case f epoch s of Inl e \<Rightarrow> Inl e | Inr s' \<Rightarrow> run_epochs f rest s')"

definition saves :: "event list \<Rightarrow> nat list" where
  \<comment> \<open>the epochs at which a checkpoint was written\<close>
  "saves evs = concat (map (\<lambda>e. case e of TorchSave p epoch \<Rightarrow> [epoch] | _ \<Rightarrow> []) evs)"

definition steps :: "event list \<Rightarrow> nat" where
  \<comment> \<open>the number of optimizer steps\<close>
  "steps evs = length (filter (\<lambda>e. e = OptimizerStep) evs)"

definition scaler_steps :: "event list \<Rightarrow> nat" where
  \<comment> \<open>the number of calls of \<open>scaler.step\<close>\<close>
  "scaler_steps evs = length (filter (\<lambda>e. e = ScalerStep) evs)"

subsection \<open>The optimized loop\<close>

record config =
  results_dir :: string
  num_epochs :: nat
  gradient_accumulation_steps :: int
  use_amp :: bool

definition step_and_reset :: "bool \<Rightarrow> bool \<Rightarrow> event list" where
  \<comment> \<open>the step and the reset of both branches; \<open>ok\<close> tells whether the gradients are
      free of infinities and NaN\<close>
  "step_and_reset amp ok =
     (if amp then ScalerStep # (if ok then [OptimizerStep] else []) @ [ScalerUpdate, ZeroGrad]
      else [OptimizerStep, ZeroGrad])"

fun train_batches :: "bool \<Rightarrow> int \<Rightarrow> (nat \<Rightarrow> bool) \<Rightarrow> nat list \<Rightarrow> error + event list" where
  "train_batches amp k ok [] = Inr []"
| "train_batches amp k ok (batch_idx # rest) =
     (if k = 0 then Inl ZeroDivisionError
      else case train_batches amp k ok rest of
             Inl e \<Rightarrow> Inl e
           | Inr evs \<Rightarrow>
               Inr (Backward batch_idx
                    # (if (int batch_idx + 1) mod k = 0
                       then step_and_reset amp (ok batch_idx) else [])
                    @ evs))"

definition train_epoch :: "bool \<Rightarrow> int \<Rightarrow> nat \<Rightarrow> (nat \<Rightarrow> bool) \<Rightarrow> error + event list" where
  \<comment> \<open>the training part of one epoch over \<open>n\<close> batches; after an empty loop
      \<open>batch_idx\<close> is unbound\<close>
  "train_epoch amp k n ok =
     (case train_batches amp k ok [0..<n] of
        Inl e \<Rightarrow> Inl e
      | Inr evs \<Rightarrow>
          if n = 0 then Inl UnboundLocalError
          else Inr (ZeroGrad # evs
                    @ (if (int (n - 1) + 1) mod k \<noteq> 0
                       then step_and_reset amp (ok (n - 1)) else [])))"

definition path_join :: "string \<Rightarrow> string \<Rightarrow> string" where
  \<comment> \<open>\<open>os.path.join\<close> with a relative second part\<close>
  "path_join a b = (if a = [] \<or> last a = CHR ''/'' then a @ b else a @ ''/'' @ b)"

definition checkpoint_full :: "nat \<Rightarrow> real \<Rightarrow> 'm \<Rightarrow> 'o \<Rightarrow> ('m, 'o) checkpoint" where
  "checkpoint_full epoch loss ms os =
     [''epoch'' \<mapsto> EpochIndex epoch, ''model_state_dict'' \<mapsto> ModelState ms,
      ''optimizer_state_dict'' \<mapsto> OptimizerState os, ''loss'' \<mapsto> Loss loss]"

definition epoch_optimized ::
  "config \<Rightarrow> ('m, 'o) numerics \<Rightarrow> nat \<Rightarrow> ('m, 'o) state \<Rightarrow> error + ('m, 'o) state" where
  \<comment> \<open>one epoch of \<open>train_model\<close>: training, the pass over the test loader, the checkpoint
      block. The loss of a batch is divided by the accumulation count for the backward
      pass and multiplied by it again before it is summed.\<close>
  "epoch_optimized c r epoch s =
     (case train_epoch (use_amp c) (gradient_accumulation_steps c) (n_train r)
             (grads_finite r epoch) of
        Inl e \<Rightarrow> Inl e
      | Inr evs \<Rightarrow>
          (case py_mean (map (train_loss r epoch) [0..<n_train r]) of
             Inl e \<Rightarrow> Inl e
           | Inr avg_loss \<Rightarrow>
               (case py_mean (map (test_loss r epoch) [0..<n_test r]) of
                  Inl e \<Rightarrow> Inl e
                | Inr avg_test_loss \<Rightarrow>
                    if less_than avg_test_loss (best_loss s) then
                      (let path = path_join (results_dir c) ''models/model.pth'' in
                       Inr \<lparr>best_loss = Fin avg_test_loss,
                            files = (files s)(path \<mapsto>
                              checkpoint_full epoch avg_test_loss (model_state_dict r epoch)
                                (optimizer_state_dict r epoch)),
                            trace = trace s @ evs @ [TorchSave path epoch]\<rparr>)
                    else Inr (s\<lparr>trace := trace s @ evs\<rparr>))))"

definition train_model ::
  "config \<Rightarrow> ('m, 'o) numerics \<Rightarrow> (string \<rightharpoonup> ('m, 'o) checkpoint) \<Rightarrow> error + ('m, 'o) state" where
  \<comment> \<open>\<open>fs\<close> holds the files found when the run starts\<close>
  "train_model c r fs =
     run_epochs (epoch_optimized c r) [0..<num_epochs c]
       \<lparr>best_loss = PosInf, files = fs, trace = []\<rparr>"

subsection \<open>The plain loops\<close>

text \<open>
  The loop of \<open>train_model.ipynb\<close> and the loop of the unnamed notebook step the optimizer
  on every batch, run no pass over the test loader, and differ in the dictionary they
  save.
\<close>

definition checkpoint_states :: "nat \<Rightarrow> real \<Rightarrow> 'm \<Rightarrow> 'o \<Rightarrow> ('m, 'o) checkpoint" where
  "checkpoint_states epoch loss ms os =
     [''model_state_dict'' \<mapsto> ModelState ms, ''optimizer_state_dict'' \<mapsto> OptimizerState os]"

definition epoch_plain ::
  "(nat \<Rightarrow> real \<Rightarrow> 'm \<Rightarrow> 'o \<Rightarrow> ('m, 'o) checkpoint) \<Rightarrow> ('m, 'o) numerics \<Rightarrow> nat
     \<Rightarrow> ('m, 'o) state \<Rightarrow> error + ('m, 'o) state" where
  "epoch_plain dict r epoch s =
     (let evs = concat (map (\<lambda>b. [ZeroGrad, Backward b, OptimizerStep]) [0..<n_train r])
      in case py_mean (map (train_loss r epoch) [0..<n_train r]) of
           Inl e \<Rightarrow> Inl e
         | Inr avg_loss \<Rightarrow>
             if less_than avg_loss (best_loss s) then
               Inr \<lparr>best_loss = Fin avg_loss,
                    files = (files s)(''../results/models/model.pth'' \<mapsto>
                      dict epoch avg_loss (model_state_dict r epoch) (optimizer_state_dict r epoch)),
                    trace = trace s @ evs @ [TorchSave ''../results/models/model.pth'' epoch]\<rparr>
             else Inr (s\<lparr>trace := trace s @ evs\<rparr>))"

definition train_loop_notebook ::
  "nat \<Rightarrow> ('m, 'o) numerics \<Rightarrow> (string \<rightharpoonup> ('m, 'o) checkpoint) \<Rightarrow> error + ('m, 'o) state" where
  \<comment> \<open>the loop of \<open>train_model.ipynb\<close>; the notebook sets \<open>num_epochs = 16\<close>\<close>
  "train_loop_notebook epochs r fs =
     run_epochs (epoch_plain checkpoint_states r) [0..<epochs]
       \<lparr>best_loss = PosInf, files = fs, trace = []\<rparr>"

definition train_loop_unnamed ::
  "nat \<Rightarrow> ('m, 'o) numerics \<Rightarrow> (string \<rightharpoonup> ('m, 'o) checkpoint) \<Rightarrow> error + ('m, 'o) state" where
  \<comment> \<open>the loop of the unnamed notebook; it sets \<open>num_epochs = 16\<close> as well\<close>
  "train_loop_unnamed epochs r fs =
     run_epochs (epoch_plain checkpoint_full r) [0..<epochs]
       \<lparr>best_loss = PosInf, files = fs, trace = []\<rparr>"

text \<open>
  The checkpoint rule as the specification words it, on the mean validation losses of
  the epochs: a write on every strict improvement over the best loss seen so far.
\<close>

fun improving_from :: "pyfloat \<Rightarrow> nat \<Rightarrow> real list \<Rightarrow> nat list" where
  "improving_from best epoch [] = []"
| "improving_from best epoch (v # vs) =
     (if less_than v best then epoch # improving_from (Fin v) (Suc epoch) vs
      else improving_from best (Suc epoch) vs)"

definition spec_writes :: "real list \<Rightarrow> nat list" where
  "spec_writes vs = improving_from PosInf 0 vs"

fun best_after :: "pyfloat \<Rightarrow> real list \<Rightarrow> pyfloat" where
  \<comment> \<open>the best loss seen once the given losses have been compared in turn\<close>
  "best_after best [] = best"
| "best_after best (v # vs) = best_after (if less_than v best then Fin v else best) vs"

definition recorded ::
  "string \<Rightarrow> (nat \<Rightarrow> real \<Rightarrow> ('m, 'o) checkpoint) \<Rightarrow> ('m, 'o) state \<Rightarrow> bool" where
  \<comment> \<open>once a write has happened, the file at \<open>path\<close> is the dictionary made at the last
      write, for the best loss\<close>
  "recorded path dict s \<longleftrightarrow>
     (case best_loss s of
        PosInf \<Rightarrow> saves (trace s) = []
      | Fin v \<Rightarrow> saves (trace s) \<noteq> [] \<and> files s path = Some (dict (last (saves (trace s))) v))"

text \<open>
  Gradient accumulation as the specification words it, for \<open>n\<close> batches and the count
  \<open>k\<close>: an optimizer step followed by a reset of the gradients after each batch whose
  index, counted from one, is a multiple of \<open>k\<close>, and one more at the end of the epoch when
  \<open>n\<close> is no multiple of \<open>k\<close>.
\<close>

definition accumulation_trace :: "nat \<Rightarrow> nat \<Rightarrow> event list" where
  "accumulation_trace k n =
     ZeroGrad
     # concat (map (\<lambda>i. Backward i # (if k dvd Suc i then [OptimizerStep, ZeroGrad] else []))
         [0..<n])
     @ (if k dvd n then [] else [OptimizerStep, ZeroGrad])"

text \<open>
  The batches after which the specification puts a step, and the same trace when the
  step is left to the gradient scaler: the call of the scaler, the optimizer step that
  it takes on gradients without infinity and NaN, the update of the scale and the reset.
\<close>

definition step_points :: "nat \<Rightarrow> nat \<Rightarrow> nat list" where
  "step_points k n = filter (\<lambda>i. k dvd Suc i) [0..<n] @ (if k dvd n then [] else [n - 1])"

definition scaled_step :: "bool \<Rightarrow> event list" where
  "scaled_step ok =
     (if ok then [ScalerStep, OptimizerStep, ScalerUpdate, ZeroGrad]
      else [ScalerStep, ScalerUpdate, ZeroGrad])"

definition accumulation_trace_amp :: "(nat \<Rightarrow> bool) \<Rightarrow> nat \<Rightarrow> nat \<Rightarrow> event list" where
  "accumulation_trace_amp ok k n =
     ZeroGrad
     # concat (map (\<lambda>i. Backward i # (if k dvd Suc i then scaled_step (ok i) else []))
         [0..<n])
     @ (if k dvd n then [] else scaled_step (ok (n - 1)))"

text \<open>Two concrete runs, for the examples below.\<close>

definition run8 :: "(unit, unit) numerics" where
  \<comment> \<open>eight epochs whose mean validation losses are 12.6, 11.2, 10.9, 10.9, 10.8, 13.4,
      10.1 and 10.0\<close>
  "run8 =
     \<lparr>n_train = 3, n_test = 2,
      train_loss = (\<lambda>epoch b. 9),
      test_loss = (\<lambda>epoch b. [126 / 10, 112 / 10, 109 / 10, 109 / 10, 108 / 10, 134 / 10,
                                101 / 10, 10] ! epoch + (if b = 0 then 1 else - 1)),
      grads_finite = (\<lambda>epoch b. True),
      model_state_dict = (\<lambda>epoch. ()), optimizer_state_dict = (\<lambda>epoch. ())\<rparr>"

definition config8 :: config where
  "config8 = \<lparr>results_dir = ''../results'', num_epochs = 8, gradient_accumulation_steps = 8,
               use_amp = False\<rparr>"

definition overfit :: "(unit, unit) numerics" where
  \<comment> \<open>the training loss falls in every epoch while the loss on the test set rises\<close>
  "overfit =
     \<lparr>n_train = 1, n_test = 1,
      train_loss = (\<lambda>epoch b. 16 - real epoch),
      test_loss = (\<lambda>epoch b. 10 + real epoch),
      grads_finite = (\<lambda>epoch b. True),
      model_state_dict = (\<lambda>epoch. ()), optimizer_state_dict = (\<lambda>epoch. ())\<rparr>"

section \<open>Properties of the SI-SDR loss\<close>

subsection \<open>Rows, sums and the closed form of a row score\<close>

lemma shape_of_list [simp]: "shape (of_list s xs) = s"
  by (simp add: of_list_def)

lemma shape_scale [simp]: "shape (scale c t) = shape t"
  by (simp add: scale_def)

lemma numel_scale [simp]: "numel (scale c t) = numel t"
  by (simp add: numel_def)

lemma length_row [simp]: "length (row t n r) = n"
  by (simp add: row_def)

lemma length_center [simp]: "length (center xs) = length xs"
  by (simp add: center_def)

lemma row_scale: "row (scale c t) n r = map ((*) c) (row t n r)"
  by (simp add: row_def scale_def)

lemma sumsq_nonneg: "0 \<le> sumsq xs"
  unfolding sumsq_def by (rule sum_list_nonneg) auto

lemma those_map_Some: "those (map (\<lambda>x. Some (f x)) xs) = Some (map f xs)"
  by (induction xs) auto

lemma those_all_Some: "(\<And>x. x \<in> set xs \<Longrightarrow> x \<noteq> None) \<Longrightarrow> those xs = Some (map the xs)"
  by (induction xs) (auto split: option.splits)

lemma bcast_same: "length xs = length ys \<Longrightarrow> bcast f xs ys = map2 f xs ys"
  by (simp add: bcast_def)

lemma si_sdr_row_pos_eps:
  assumes "0 < eps"
  shows "si_sdr_row eps p t =
    Some (10 * log 10
      (sumsq (map ((*) ((sum_list (bcast (*) (center p) (center t)) + eps)
                          / (sumsq (center t) + eps))) (center t))
       / (sumsq (bcast (-) (center p)
            (map ((*) ((sum_list (bcast (*) (center p) (center t)) + eps)
                          / (sumsq (center t) + eps))) (center t))) + eps) + eps))"
proof -
  have d2: "\<And>xs. sumsq xs + eps \<noteq> 0" "\<And>xs. 0 < sumsq xs + eps"
    using sumsq_nonneg assms by (smt (verit))+
  have d3: "\<And>xs ys. 0 < sumsq xs / (sumsq ys + eps) + eps"
    using sumsq_nonneg d2 assms by (smt (verit) divide_nonneg_pos)
  show ?thesis
    unfolding si_sdr_row_def Let_def fdiv_def flog10_def
    using d2 d3 by (simp add: not_le [symmetric] del: not_le)
qed

lemma si_sdr_row_finite: "0 < eps \<Longrightarrow> \<exists>v. si_sdr_row eps p t = Some v"
  using si_sdr_row_pos_eps by blast

lemma neg_mean_finite:
  assumes "\<And>x. x \<in> set xs \<Longrightarrow> x \<noteq> None"
  shows "\<exists>v. neg_mean xs = Some v"
  unfolding neg_mean_def using those_all_Some [OF assms] by simp

lemma map_upt_mult:
  "map g [0..<m * n] = concat (map (\<lambda>i. map (\<lambda>j. g (i * n + j)) [0..<n]) [0..<m])"
proof (induction m)
  case 0
  show ?case by simp
next
  case (Suc m)
  have split: "[0..<Suc m * n] = [0..<m * n] @ [m * n..<m * n + n]"
    using upt_add_eq_append [of 0 "m * n" n] by (simp add: add.commute)
  have shift: "map g [m * n..<m * n + n] = map (\<lambda>j. g (m * n + j)) [0..<n]"
  proof -
    have "[m * n..<m * n + n] = map (\<lambda>i. i + m * n) [0..<n]"
      using map_add_upt [of "m * n" n] by (simp add: add.commute)
    then show ?thesis by (simp add: comp_def add.commute)
  qed
  have "map g [0..<Suc m * n] = map g [0..<m * n] @ map g [m * n..<m * n + n]"
    unfolding split by simp
  also have "\<dots> = concat (map (\<lambda>i. map (\<lambda>j. g (i * n + j)) [0..<n]) [0..<m])
        @ map (\<lambda>j. g (m * n + j)) [0..<n]"
    unfolding Suc shift ..
  also have "\<dots> = concat (map (\<lambda>i. map (\<lambda>j. g (i * n + j)) [0..<n]) [0..<Suc m])"
    by simp
  finally show ?case .
qed

lemma sum_list_concat_real:
  "sum_list (concat xss) = sum_list (map sum_list (xss :: real list list))"
  by (induction xss) auto

lemma sum_list_upt_mult:
  "sum_list (map g [0..<m * n]) = (\<Sum>i<m. \<Sum>j<n. (g (i * n + j) :: real))"
proof -
  have "sum_list (map g [0..<m * n])
      = sum_list (map (\<lambda>i. sum_list (map (\<lambda>j. g (i * n + j)) [0..<n])) [0..<m])"
    unfolding map_upt_mult [of g m n] sum_list_concat_real by (simp add: comp_def)
  also have "\<dots> = (\<Sum>i<m. \<Sum>j<n. g (i * n + j))"
    by (simp add: interv_sum_list_conv_sum_set_nat atLeast0LessThan)
  finally show ?thesis .
qed

subsection \<open>The loss is the algorithm of the specification\<close>

lemma row_flatten_pair: "row t (F * T) (b * S + s) = flatten_pair t S F T b s"
proof -
  have "row t (F * T) (b * S + s) = map (\<lambda>j. elem t ((b * S + s) * (F * T) + j)) [0..<F * T]"
    by (simp add: row_def)
  also have "\<dots> = concat (map (\<lambda>f. map (\<lambda>k. elem t ((b * S + s) * (F * T) + (f * T + k)))
                        [0..<T]) [0..<F])"
    by (rule map_upt_mult)
  also have "\<dots> = flatten_pair t S F T b s"
    unfolding flatten_pair_def by (simp add: algebra_simps)
  finally show ?thesis .
qed

lemma sum_list_map2_inner:
  "length u = length v \<Longrightarrow> sum_list (map2 (*) u v) = inner u v"
  unfolding inner_def
  by (simp add: sum_list_sum_nth atLeast0LessThan)

lemma sumsq_energy: "sumsq v = energy v"
  unfolding sumsq_def energy_def inner_def
  by (simp add: sum_list_sum_nth atLeast0LessThan power2_eq_square)

lemma center_zero_mean: "center = zero_mean"
  by (rule ext) (simp add: center_def zero_mean_def)

lemma length_zero_mean [simp]: "length (zero_mean v) = length v"
  by (simp add: zero_mean_def)

lemma si_sdr_row_spec:
  assumes "0 < eps" "length p = length t"
  shows "si_sdr_row eps p t = Some (spec_score eps p t)"
  unfolding si_sdr_row_pos_eps [OF assms(1)] spec_score_def Let_def center_zero_mean
  using assms(2)
  by (simp add: bcast_same sum_list_map2_inner sumsq_energy)

text \<open>
  C2: for predictions and targets of shape \<open>(B, S, F, T)\<close> with at least one (batch,
  source) pair, and a positive epsilon, the loss returns the value of the algorithm of the
  specification: flatten each pair, remove the means, scale the target by
  \<open>alpha = (\<langle>p, t\<rangle> + eps) / (\<parallel>t\<parallel>\<^sup>2 + eps)\<close>, take the ratio of the energy of the
  scaled target to the energy of the residual plus epsilon, take \<open>10 * log10\<close> of the ratio
  plus epsilon, and negate the mean over all pairs.
\<close>

theorem SI_SDR_forward_refines_spec:
  assumes "shape P = [B, S, F, T]" "shape G = [B, S, F, T]" "0 < B * S" "0 < eps"
  shows "SI_SDR_forward eps P G = Inr (Some (spec_loss eps P G B S F T))"
proof -
  have nG: "numel G = B * S * (F * T)" using assms by (simp add: numel_def mult.assoc)
  let ?sc = "\<lambda>r. spec_score eps (row P (F * T) r) (row G (F * T) r)"
  have rows: "map (\<lambda>r. si_sdr_row eps (row P (F * T) r) (row G (F * T) r)) [0..<B * S]
      = map (\<lambda>r. Some (?sc r)) [0..<B * S]"
    by (rule map_cong [OF refl]) (simp add: si_sdr_row_spec [OF assms(4)])
  have "SI_SDR_forward eps P G = Inr (Some (- (sum_list (map ?sc [0..<B * S]) / real (B * S))))"
    unfolding SI_SDR_forward_def Let_def
    using assms(1,3) nG
    by (simp add: broadcastable_def rows neg_mean_def those_map_Some del: upt_Suc)
  also have "sum_list (map ?sc [0..<B * S])
     = (\<Sum>b<B. \<Sum>s<S. spec_score eps (flatten_pair P S F T b s) (flatten_pair G S F T b s))"
    unfolding sum_list_upt_mult by (simp add: row_flatten_pair)
  finally show ?thesis by (simp add: spec_loss_def)
qed

theorem SI_SDR_forward_refines_spec_witness:
  "SI_SDR_forward (1 / 10 ^ 8) (of_list [2, 1, 1, 2] [1, 3, 0, 2]) (of_list [2, 1, 1, 2] [0, 0, 1, 5])
     = Inr (Some (spec_loss (1 / 10 ^ 8) (of_list [2, 1, 1, 2] [1, 3, 0, 2])
                    (of_list [2, 1, 1, 2] [0, 0, 1, 5]) 2 1 1 2))"
  using SI_SDR_forward_refines_spec
    [of "of_list [2, 1, 1, 2] [1, 3, 0, 2]" 2 1 1 2 "of_list [2, 1, 1, 2] [0, 0, 1, 5]" "1 / 10 ^ 8"]
  by simp

subsection \<open>Floats within the range\<close>

text \<open>
  When the exact computation returns a number and every value that it goes through is
  within the range of the floats, the computation on floats returns that number.
\<close>

lemma ovf_in_range: "in_range r \<Longrightarrow> ovf r = Num r"
  by (auto simp: in_range_def ovf_def)

lemma in_range_abs [simp]: "in_range \<bar>r\<bar> = in_range r"
  by (simp add: in_range_def)

lemma foldl_f_add_Num:
  "in_range (\<bar>a\<bar> + sum_list (map abs xs)) \<Longrightarrow>
   foldl f_add (Num a) (map Num xs) = Num (a + sum_list xs)"
proof (induction xs arbitrary: a)
  case Nil
  show ?case by simp
next
  case (Cons x xs)
  have s: "0 \<le> sum_list (map abs xs)" by (rule sum_list_nonneg) auto
  have "in_range (a + x)"
    using Cons.prems s unfolding in_range_def by (simp; linarith?)
  moreover have "in_range (\<bar>a + x\<bar> + sum_list (map abs xs))"
    using Cons.prems s unfolding in_range_def by (simp; linarith?)
  ultimately show ?case using Cons.IH [of "a + x"] by (simp add: ovf_in_range add.assoc)
qed

lemma f_sum_Num: "sums_in_range xs \<Longrightarrow> f_sum (map Num xs) = Num (sum_list xs)"
  using foldl_f_add_Num [of 0 xs] by (simp add: f_sum_def sums_in_range_def)

lemma map_ovf: "all_in_range (map f xs) \<Longrightarrow> map (\<lambda>x. ovf (f x)) xs = map (\<lambda>x. Num (f x)) xs"
  by (induction xs) (simp_all add: all_in_range_def ovf_in_range)

lemma f_div_Num: "b \<noteq> 0 \<Longrightarrow> in_range (a / b) \<Longrightarrow> f_div (Num a) (Num b) = Num (a / b)"
  by (simp add: ovf_in_range)

lemma f_center_Num:
  assumes "center_in_range xs"
  shows "f_center (map Num xs) = map Num (center xs)"
proof (cases "xs = []")
  case True
  then show ?thesis by (simp add: f_center_def center_def)
next
  case False
  let ?m = "sum_list xs / real (length xs)"
  have mean: "f_div (f_sum (map Num xs)) (Num (real (length xs))) = Num ?m"
    using assms False by (simp add: center_in_range_def f_sum_Num ovf_in_range)
  have "all_in_range (map (\<lambda>x. x - ?m) xs)"
    using assms by (simp add: center_in_range_def center_def)
  then have o: "map (\<lambda>x. ovf (x - ?m)) xs = map (\<lambda>x. Num (x - ?m)) xs"
    by (rule map_ovf)
  have "f_center (map Num xs) = map (\<lambda>x. f_sub (Num x) (Num ?m)) xs"
    by (simp add: f_center_def mean comp_def)
  also have "\<dots> = map (\<lambda>x. ovf (x - ?m)) xs"
    by (simp add: f_sub_def)
  also have "\<dots> = map Num (center xs)"
    unfolding o by (simp add: center_def comp_def)
  finally show ?thesis .
qed

lemma f_sumsq_Num:
  assumes "sumsq_in_range xs"
  shows "f_sumsq (map Num xs) = Num (sumsq xs)"
proof -
  have o: "map (\<lambda>x. ovf (x * x)) xs = map (\<lambda>x. Num (x * x)) xs"
    using assms by (intro map_ovf) (simp add: sumsq_in_range_def)
  have "f_sumsq (map Num xs) = f_sum (map (\<lambda>x. ovf (x * x)) xs)"
    by (simp add: f_sumsq_def comp_def)
  also have "\<dots> = f_sum (map Num (map (\<lambda>x. x * x) xs))"
    unfolding o by (simp add: comp_def)
  also have "\<dots> = Num (sum_list (map (\<lambda>x. x * x) xs))"
    using assms by (intro f_sum_Num) (simp add: sumsq_in_range_def)
  finally show ?thesis by (simp add: sumsq_def power2_eq_square)
qed

lemma map2_ovf:
  assumes "all_in_range (map2 f xs ys)"
  shows "map2 (\<lambda>a b. ovf (f a b)) xs ys = map Num (map2 f xs ys)"
  using map_ovf [of "case_prod f" "zip xs ys"] assms by (simp add: case_prod_unfold)

lemma bcast_f_mul_Num:
  assumes "length xs = length ys" "all_in_range (bcast (*) xs ys)"
  shows "bcast f_mul (map Num xs) (map Num ys) = map Num (bcast (*) xs ys)"
proof -
  have "map2 f_mul (map Num xs) (map Num ys) = map2 (\<lambda>a b. ovf (a * b)) xs ys"
    by (auto simp: zip_map_map)
  then show ?thesis
    using assms map2_ovf [of "(*)" xs ys] by (simp add: bcast_def)
qed

lemma bcast_f_sub_Num:
  assumes "length xs = length ys" "all_in_range (bcast (-) xs ys)"
  shows "bcast f_sub (map Num xs) (map Num ys) = map Num (bcast (-) xs ys)"
proof -
  have "map2 f_sub (map Num xs) (map Num ys) = map2 (\<lambda>a b. ovf (a - b)) xs ys"
    by (auto simp: zip_map_map f_sub_def)
  then show ?thesis
    using assms map2_ovf [of "(-)" xs ys] by (simp add: bcast_def)
qed

lemma map_f_mul_Num:
  assumes "all_in_range (map ((*) a) xs)"
  shows "map (f_mul (Num a)) (map Num xs) = map Num (map ((*) a) xs)"
  using map_ovf [OF assms] by (simp add: comp_def)

lemma si_sdr_row_rows:
  "si_sdr_row eps p t =
     (if sumsq (center t) + eps = 0 \<or> row_residual eps p t + eps = 0
          \<or> row_ratio eps p t + eps \<le> 0
      then None else Some (row_score eps p t))"
  by (simp add: si_sdr_row_def Let_def fdiv_def flog10_def row_score_def row_ratio_def
      row_residual_def row_scaled_def row_alpha_def)

lemma si_sdr_row_f32_Num:
  assumes "si_sdr_row eps p t = Some v" "length p = length t" "row_in_range eps p t"
  shows "si_sdr_row_f32 (Num eps) (map Num p) (map Num t) = Num v"
proof -
  from assms(1) have d1: "sumsq (center t) + eps \<noteq> 0" and d2: "row_residual eps p t + eps \<noteq> 0"
    and d3: "0 < row_ratio eps p t + eps" and v: "v = row_score eps p t"
    by (auto simp: si_sdr_row_rows split: if_splits)
  note r = assms(3) [unfolded row_in_range_def]
  have len: "length (center p) = length (center t)"
    "length (center p) = length (row_scaled eps p t)"
    using assms(2) by (simp_all add: row_scaled_def)
  have cp: "f_center (map Num p) = map Num (center p)"
    using r by (intro f_center_Num) simp
  have ct: "f_center (map Num t) = map Num (center t)"
    using r by (intro f_center_Num) simp
  have prod: "bcast f_mul (map Num (center p)) (map Num (center t))
      = map Num (bcast (*) (center p) (center t))"
    using r len(1) by (intro bcast_f_mul_Num) simp_all
  have num: "f_add (f_sum (map Num (bcast (*) (center p) (center t)))) (Num eps)
      = Num (sum_list (bcast (*) (center p) (center t)) + eps)"
    using r by (simp add: f_sum_Num ovf_in_range)
  have den: "f_add (f_sumsq (map Num (center t))) (Num eps) = Num (sumsq (center t) + eps)"
    using r by (simp add: f_sumsq_Num ovf_in_range)
  have alpha: "f_div (Num (sum_list (bcast (*) (center p) (center t)) + eps))
      (Num (sumsq (center t) + eps)) = Num (row_alpha eps p t)"
    unfolding row_alpha_def using r d1 by (intro f_div_Num) (simp_all add: row_alpha_def)
  have scaled: "map (f_mul (Num (row_alpha eps p t))) (map Num (center t))
      = map Num (row_scaled eps p t)"
    unfolding row_scaled_def using r by (intro map_f_mul_Num) (simp add: row_scaled_def)
  have en: "f_sumsq (map Num (row_scaled eps p t)) = Num (sumsq (row_scaled eps p t))"
    using r by (intro f_sumsq_Num) simp
  have diff: "bcast f_sub (map Num (center p)) (map Num (row_scaled eps p t))
      = map Num (bcast (-) (center p) (row_scaled eps p t))"
    using r len(2) by (intro bcast_f_sub_Num) simp_all
  have res: "f_add (f_sumsq (map Num (bcast (-) (center p) (row_scaled eps p t)))) (Num eps)
      = Num (row_residual eps p t + eps)"
    using r by (simp add: f_sumsq_Num ovf_in_range row_residual_def)
  have ratio: "f_div (Num (sumsq (row_scaled eps p t))) (Num (row_residual eps p t + eps))
      = Num (row_ratio eps p t)"
    unfolding row_ratio_def using r d2 by (intro f_div_Num) (simp_all add: row_ratio_def)
  have arg: "f_add (Num (row_ratio eps p t)) (Num eps) = Num (row_ratio eps p t + eps)"
    using r by (simp add: ovf_in_range)
  have lg: "f_log10 (Num (row_ratio eps p t + eps)) = Num (log 10 (row_ratio eps p t + eps))"
    using r d3 by (simp add: ovf_in_range)
  have score: "f_mul (Num 10) (Num (log 10 (row_ratio eps p t + eps))) = Num (row_score eps p t)"
    using r by (simp add: ovf_in_range row_score_def)
  show ?thesis
    unfolding si_sdr_row_f32_def Let_def cp ct prod num den alpha scaled en diff res ratio arg lg
      score v ..
qed

lemma row_to_f32: "row (to_f32 t) n r = map Num (row t n r)"
  by (simp add: row_def to_f32_def)

lemma shape_to_f32 [simp]: "shape (to_f32 t) = shape t"
  by (simp add: to_f32_def)

lemma numel_to_f32 [simp]: "numel (to_f32 t) = numel t"
  by (simp add: numel_def)

lemma those_Some_nth:
  "those xs = Some ys \<Longrightarrow> length ys = length xs \<and> (\<forall>i<length xs. xs ! i = Some (ys ! i))"
proof (induction xs arbitrary: ys)
  case Nil
  then show ?case by simp
next
  case (Cons x xs)
  then obtain y zs where x: "x = Some y" and zs: "those xs = Some zs" and ys: "ys = y # zs"
    by (auto split: option.splits)
  from Cons.IH [OF zs] show ?case
    unfolding x ys by (auto simp: nth_Cons split: nat.splits)
qed

lemma those_map_eq:
  assumes "those (map f xs) = Some ys"
  shows "map f xs = map Some ys"
  using those_Some_nth [OF assms] by (intro nth_equalityI) simp_all

lemma SI_SDR_forward_f32_in_range:
  assumes "SI_SDR_forward eps P G = Inr (Some v)"
    and "shape P = [B, S, F, T]" "shape G = [B, S, F, T]" "loss_in_range eps P G"
  shows "SI_SDR_forward_f32 (Num eps) (to_f32 P) (to_f32 G) = Inr (Num v)"
proof -
  let ?n = "F * T" and ?R = "B * S"
  let ?s = "\<lambda>r. row_score eps (row P ?n r) (row G ?n r)"
  have nG: "numel G = ?R * ?n" using assms(3) by (simp add: numel_def mult.assoc)
  have R: "?R \<noteq> 0" using assms(1,2) by (auto simp: SI_SDR_forward_def Let_def split: if_splits)
  then have nt: "numel G div ?R = ?n" "numel G mod ?R = 0" using nG by simp_all
  from assms(1) have nm: "neg_mean (map (\<lambda>r. si_sdr_row eps (row P ?n r) (row G ?n r)) [0..<?R])
      = Some v"
    unfolding SI_SDR_forward_def Let_def using assms(2) R nt
    by (simp add: broadcastable_def del: upt_Suc)
  then obtain ys where ys: "those (map (\<lambda>r. si_sdr_row eps (row P ?n r) (row G ?n r)) [0..<?R])
      = Some ys" and v: "v = - (sum_list ys / real (length ys))"
    by (auto simp: neg_mean_def)
  have rows: "si_sdr_row eps (row P ?n r) (row G ?n r) = Some (?s r)" if "r < ?R" for r
  proof -
    have "si_sdr_row eps (row P ?n r) (row G ?n r) = Some (ys ! r)"
      using those_Some_nth [OF ys] that by (auto simp del: upt_Suc)
    then show ?thesis by (auto simp: si_sdr_row_rows split: if_splits)
  qed
  have "map (\<lambda>r. si_sdr_row eps (row P ?n r) (row G ?n r)) [0..<?R] = map (\<lambda>r. Some (?s r)) [0..<?R]"
    by (rule map_cong [OF refl]) (simp add: rows)
  then have "those (map (\<lambda>r. si_sdr_row eps (row P ?n r) (row G ?n r)) [0..<?R])
      = Some (map ?s [0..<?R])"
    by (simp only: those_map_Some)
  with ys have ys': "ys = map ?s [0..<?R]" by simp
  note l = assms(4) [unfolded loss_in_range_def assms(2) list.case]
  have f32: "si_sdr_row_f32 (Num eps) (row (to_f32 P) ?n r) (row (to_f32 G) ?n r) = Num (?s r)"
    if "r < ?R" for r
    unfolding row_to_f32
    using l that by (intro si_sdr_row_f32_Num rows) (simp_all add: list_all_iff)
  have m1: "map (\<lambda>r. si_sdr_row_f32 (Num eps) (row (to_f32 P) ?n r) (row (to_f32 G) ?n r)) [0..<?R]
      = map Num (map ?s [0..<?R])"
    unfolding map_map comp_def by (rule map_cong [OF refl]) (simp add: f32)
  have m2: "f_sum (map Num (map ?s [0..<?R])) = Num (sum_list (map ?s [0..<?R]))"
    using l by (intro f_sum_Num) simp
  have m3: "f_div (Num (sum_list (map ?s [0..<?R]))) (Num (real ?R))
      = Num (sum_list (map ?s [0..<?R]) / real ?R)"
    using l R by (intro f_div_Num) simp_all
  have body: "f_neg (f_div (f_sum (map (\<lambda>r. si_sdr_row_f32 (Num eps) (row (to_f32 P) ?n r)
      (row (to_f32 G) ?n r)) [0..<?R])) (Num (real ?R))) = Num v"
    unfolding m1 m2 m3 v ys' by simp
  show ?thesis
    unfolding SI_SDR_forward_f32_def Let_def shape_to_f32 assms(2) list.case numel_to_f32 nt body
    using R by (simp add: broadcastable_def)
qed

lemma log10_bounds:
  assumes "1 / 10 ^ 38 \<le> x" "x \<le> 10 ^ 38"
  shows "\<bar>log 10 x\<bar> \<le> 38"
proof -
  have x: "0 < x" using assms(1) by (smt (verit) divide_pos_pos zero_less_power)
  have "log 10 (1 / 10 ^ 38) \<le> log 10 x"
    using assms(1) x by (subst log_le_cancel_iff) simp_all
  moreover have "log 10 (1 / 10 ^ 38) = - 38"
    using log_pow_cancel [of 10 38] by (simp add: log_divide)
  moreover have "log 10 x \<le> log 10 (10 ^ 38)"
    using assms(2) x by (subst log_le_cancel_iff) simp_all
  moreover have "log 10 (10 ^ 38 :: real) = 38"
    using log_pow_cancel [of 10 38] by simp
  ultimately show ?thesis by simp
qed

lemma in_range_small: "\<bar>r\<bar> \<le> 10 ^ 38 \<Longrightarrow> in_range r"
proof -
  have "(10 :: real) ^ 38 < float32_overflow" by (simp add: float32_overflow_def)
  then show "\<bar>r\<bar> \<le> 10 ^ 38 \<Longrightarrow> in_range r" unfolding in_range_def by linarith
qed

lemma in_range_log10:
  assumes "1 / 10 ^ 38 \<le> x" "x \<le> 10 ^ 38"
  shows "in_range (log 10 x)" "in_range (10 * log 10 x)"
proof -
  have b: "\<bar>log 10 x\<bar> \<le> 38" using assms by (rule log10_bounds)
  then show "in_range (log 10 x)" by (intro in_range_small) simp
  have "\<bar>10 * log 10 x\<bar> \<le> 380" using b by simp
  then show "in_range (10 * log 10 x)" by (intro in_range_small) simp
qed

subsection \<open>Two losses on one pair of samples\<close>

lemma upt_0_2: "[0..<2] = [0, Suc 0]"
  by (simp add: numeral_2_eq_2)

lemma row_of_list_2 [simp]: "row (of_list s [a, b]) 2 0 = [a, b]"
  by (simp add: row_def of_list_def upt_0_2)

lemma single_row:
  "shape P = [1, 1, 1, 2] \<Longrightarrow> shape G = [1, 1, 1, 2] \<Longrightarrow>
   SI_SDR_forward eps P G = Inr (map_option uminus (si_sdr_row eps (row P 2 0) (row G 2 0)))"
  unfolding SI_SDR_forward_def Let_def neg_mean_def
  by (cases "si_sdr_row eps (row P 2 0) (row G 2 0)") (simp_all add: numel_def broadcastable_def)

lemma single_pair:
  "SI_SDR_forward eps (of_list [1, 1, 1, 2] [a, b]) (of_list [1, 1, 1, 2] [c, d])
     = Inr (map_option uminus (si_sdr_row eps [a, b] [c, d]))"
  using single_row [of "of_list [1, 1, 1, 2] [a, b]" "of_list [1, 1, 1, 2] [c, d]" eps]
  by (simp only: shape_of_list row_of_list_2)

lemma row_same:
  "si_sdr_row (1 / 10 ^ 8) [1, -1] [1, -1] = Some (10 * log 10 (20000000000000001 / 100000000))"
  by (simp add: si_sdr_row_pos_eps center_def bcast_def sumsq_def)

lemma row_double:
  "si_sdr_row (1 / 10 ^ 8) [2, -2] [1, -1]
     = Some (10 * log 10 (3200000016000000060000000600000001 / 4000000060000000100000000))"
  by (simp add: si_sdr_row_pos_eps center_def bcast_def sumsq_def power2_eq_square)

lemma scale_of_list_2:
  "row (scale c (of_list s [a, b])) 2 0 = [c * a, c * b]"
  by (simp add: row_scale)

lemma loss_identical:
  "SI_SDR_forward (1 / 10 ^ 8) (of_list [1, 1, 1, 2] [1, -1]) (of_list [1, 1, 1, 2] [1, -1])
     = Inr (Some (- (10 * log 10 (20000000000000001 / 100000000))))"
  unfolding single_pair row_same by simp

lemma loss_doubled:
  "SI_SDR_forward (1 / 10 ^ 8) (scale 2 (of_list [1, 1, 1, 2] [1, -1]))
       (of_list [1, 1, 1, 2] [1, -1])
     = Inr (Some (- (10 * log 10
                       (3200000016000000060000000600000001 / 4000000060000000100000000))))"
proof -
  have "SI_SDR_forward (1 / 10 ^ 8) (scale 2 (of_list [1, 1, 1, 2] [1, -1]))
          (of_list [1, 1, 1, 2] [1, -1])
    = Inr (map_option uminus (si_sdr_row (1 / 10 ^ 8) [2, -2] [1, -1]))"
    using single_row [of "scale 2 (of_list [1, 1, 1, 2] [1, -1])"
        "of_list [1, 1, 1, 2] [1, -1]" "1 / 10 ^ 8"]
    by (simp only: shape_scale shape_of_list scale_of_list_2 row_of_list_2) simp
  then show ?thesis unfolding row_double by simp
qed

lemma log_args:
  "log 10 (20000000000000001 / 100000000)
     < log 10 (3200000016000000060000000600000001 / 4000000060000000100000000)"
  by (subst log_less_cancel_iff) simp_all

lemma log10_eps: "log 10 (1 / 10 ^ 8) = - 8"
proof -
  have "log 10 (1 / 10 ^ 8) = - log 10 (10 ^ 8)"
    by (simp add: log_divide)
  also have "log 10 (10 ^ 8 :: real) = 8"
    using log_pow_cancel [of 10 8] by simp
  finally show ?thesis by simp
qed

lemma loss_silent_target:
  "SI_SDR_forward (1 / 10 ^ 8) (of_list [1, 1, 1, 2] [1, 3]) (of_list [1, 1, 1, 2] [0, 0])
     = Inr (Some 80)"
proof -
  have "si_sdr_row (1 / 10 ^ 8) [1, 3] [0, 0] = Some (10 * log 10 (1 / 10 ^ 8))"
    by (simp add: si_sdr_row_pos_eps center_def bcast_def sumsq_def)
  then show ?thesis unfolding single_pair log10_eps by simp
qed

subsection \<open>The epsilon and the finiteness of the loss\<close>


lemma rows_silent_target:
  "center [1, 3] = [- 1, 1]" "center [0, 0] = [0, 0 :: real]"
  "row_alpha (1 / 10 ^ 8) [1, 3] [0, 0] = 1"
  "row_scaled (1 / 10 ^ 8) [1, 3] [0, 0] = [0, 0]"
  "row_residual (1 / 10 ^ 8) [1, 3] [0, 0] = 2"
  "row_ratio (1 / 10 ^ 8) [1, 3] [0, 0] = 0"
  "row_score (1 / 10 ^ 8) [1, 3] [0, 0] = - 80"
proof -
  show c: "center [1, 3] = [- 1, 1]" "center [0, 0] = [0, 0 :: real]"
    by (simp_all add: center_def)
  show a: "row_alpha (1 / 10 ^ 8) [1, 3] [0, 0] = 1"
    unfolding row_alpha_def c by (simp add: bcast_def sumsq_def)
  show s: "row_scaled (1 / 10 ^ 8) [1, 3] [0, 0] = [0, 0]"
    unfolding row_scaled_def a c by simp
  show r: "row_residual (1 / 10 ^ 8) [1, 3] [0, 0] = 2"
    unfolding row_residual_def s c by (simp add: bcast_def sumsq_def)
  show q: "row_ratio (1 / 10 ^ 8) [1, 3] [0, 0] = 0"
    unfolding row_ratio_def s r by (simp add: sumsq_def)
  have "row_score (1 / 10 ^ 8) [1, 3] [0, 0] = 10 * log 10 (1 / 10 ^ 8)"
    unfolding row_score_def q by simp
  then show "row_score (1 / 10 ^ 8) [1, 3] [0, 0] = - 80"
    unfolding log10_eps by simp
qed

lemma loss_in_range_silent_target:
  "loss_in_range (1 / 10 ^ 8) (of_list [1, 1, 1, 2] [1, 3]) (of_list [1, 1, 1, 2] [0, 0])"
proof -
  have lg: "log 10 (1 / 100000000) = (- 8 :: real)"
    using log10_eps by simp
  have "row_in_range (1 / 10 ^ 8) [1, 3] [0, 0]"
    unfolding row_in_range_def center_in_range_def sumsq_in_range_def rows_silent_target
      all_in_range_def
    by (simp add: bcast_def sumsq_def in_range_small sums_in_range_def lg)
  then show ?thesis
    unfolding loss_in_range_def
    by (simp add: rows_silent_target [simplified] in_range_small sums_in_range_def)
qed



subsection \<open>Rescaling the prediction\<close>


lemma sum_list_scale: "sum_list (map ((*) c) xs) = c * sum_list (xs :: real list)"
  by (induction xs) (simp_all add: algebra_simps)

lemma center_scale: "center (map ((*) c) p) = map ((*) c) (center p)"
  by (simp add: center_def sum_list_scale algebra_simps)

lemma bcast_mult_scale:
  assumes "broadcastable (length xs) (length ys)"
  shows "bcast (*) (map ((*) c) xs) ys = map ((*) c) (bcast (*) xs (ys :: real list))"
proof -
  consider "length xs = length ys" | "length xs \<noteq> length ys" "length ys = 1"
    | "length xs \<noteq> length ys" "length ys \<noteq> 1" "length xs = 1"
    using assms unfolding broadcastable_def by blast
  then show ?thesis
  proof cases
    case 1
    then show ?thesis by (simp add: bcast_def zip_map1 case_prod_unfold)
  next
    case 2
    then show ?thesis by (simp add: bcast_def)
  next
    case 3
    then obtain x where "xs = [x]" by (cases xs) auto
    with 3 show ?thesis by (simp add: bcast_def)
  qed
qed

lemma bcast_minus_scale:
  assumes "broadcastable (length xs) (length ys)"
  shows "bcast (-) (map ((*) c) xs) (map ((*) c) ys) = map ((*) c) (bcast (-) xs (ys :: real list))"
proof -
  consider "length xs = length ys" | "length xs \<noteq> length ys" "length ys = 1"
    | "length xs \<noteq> length ys" "length ys \<noteq> 1" "length xs = 1"
    using assms unfolding broadcastable_def by blast
  then show ?thesis
  proof cases
    case 1
    then show ?thesis
      by (simp add: bcast_def zip_map1 zip_map2 case_prod_unfold algebra_simps)
  next
    case 2
    then obtain y where "ys = [y]" by (cases ys) auto
    with 2 show ?thesis by (simp add: bcast_def algebra_simps)
  next
    case 3
    then obtain x where "xs = [x]" by (cases xs) auto
    with 3 show ?thesis by (simp add: bcast_def algebra_simps)
  qed
qed

lemma sumsq_scale: "sumsq (map ((*) c) xs) = c\<^sup>2 * sumsq xs"
  unfolding sumsq_def by (induction xs) (simp_all add: algebra_simps power2_eq_square)

lemma si_sdr_row_scale0:
  assumes "c \<noteq> 0" "broadcastable (length p) (length t)"
  shows "si_sdr_row 0 (map ((*) c) p) t = si_sdr_row 0 p t"
proof (cases "sumsq (center t) = 0")
  case True
  then show ?thesis by (simp add: si_sdr_row_def fdiv_def)
next
  case False
  define alpha where "alpha = sum_list (bcast (*) (center p) (center t)) / sumsq (center t)"
  define st where "st = map ((*) alpha) (center t)"
  have bc: "broadcastable (length (center p)) (length (center t))"
    "broadcastable (length (center p)) (length st)"
    using assms(2) by (simp_all add: st_def)
  have a: "sum_list (bcast (*) (center (map ((*) c) p)) (center t)) / sumsq (center t)
      = c * alpha"
    by (simp add: center_scale bcast_mult_scale [OF bc(1)] sum_list_scale alpha_def)
  have s: "map ((*) (c * alpha)) (center t) = map ((*) c) st"
    by (simp add: st_def)
  have d: "bcast (-) (center (map ((*) c) p)) (map ((*) c) st)
      = map ((*) c) (bcast (-) (center p) st)"
    by (simp add: center_scale bcast_minus_scale [OF bc(2)])
  have l: "si_sdr_row 0 (map ((*) c) p) t =
      (case fdiv (c\<^sup>2 * sumsq st) (c\<^sup>2 * sumsq (bcast (-) (center p) st)) of
         None \<Rightarrow> None
       | Some r \<Rightarrow> map_option ((*) 10) (flog10 r))"
    using False by (simp add: si_sdr_row_def Let_def fdiv_def a s d sumsq_scale)
  have r: "si_sdr_row 0 p t =
      (case fdiv (sumsq st) (sumsq (bcast (-) (center p) st)) of
         None \<Rightarrow> None
       | Some r \<Rightarrow> map_option ((*) 10) (flog10 r))"
    using False by (simp add: si_sdr_row_def Let_def fdiv_def alpha_def st_def)
  have "fdiv (c\<^sup>2 * x) (c\<^sup>2 * y) = fdiv x y" for x y
    using assms(1) by (simp add: fdiv_def)
  then show ?thesis unfolding l r by simp
qed

lemma upt_0_3: "[0..<3] = [0, Suc 0, 2]"
  by (simp add: numeral_3_eq_3 numeral_2_eq_2)

lemma row_of_list_3 [simp]: "row (of_list s [a, b, c]) 3 0 = [a, b, c]"
  by (simp add: row_def of_list_def upt_0_3)

lemma single_row_3:
  "shape P = [1, 1, 1, 3] \<Longrightarrow> shape G = [1, 1, 1, 3] \<Longrightarrow>
   SI_SDR_forward eps P G = Inr (map_option uminus (si_sdr_row eps (row P 3 0) (row G 3 0)))"
  unfolding SI_SDR_forward_def Let_def neg_mean_def
  by (cases "si_sdr_row eps (row P 3 0) (row G 3 0)") (simp_all add: numel_def broadcastable_def)

lemma single_triple:
  "SI_SDR_forward eps (of_list [1, 1, 1, 3] [a, b, c]) (of_list [1, 1, 1, 3] [d, e, f])
     = Inr (map_option uminus (si_sdr_row eps [a, b, c] [d, e, f]))"
  using single_row_3 [of "of_list [1, 1, 1, 3] [a, b, c]" "of_list [1, 1, 1, 3] [d, e, f]" eps]
  by (simp only: shape_of_list row_of_list_3)

lemma loss_in_range_single_3:
  "loss_in_range eps (of_list [1, 1, 1, 3] [a, b, c]) (of_list [1, 1, 1, 3] [d, e, f])
     = (in_range eps \<and> row_in_range eps [a, b, c] [d, e, f]
        \<and> in_range (row_score eps [a, b, c] [d, e, f]))"
  by (auto simp: loss_in_range_def sums_in_range_def in_range_def)

lemma loss_in_range_scale_3:
  "loss_in_range eps (scale k (of_list [1, 1, 1, 3] [a, b, c])) (of_list [1, 1, 1, 3] [d, e, f])
     = (in_range eps \<and> row_in_range eps [k * a, k * b, k * c] [d, e, f]
        \<and> in_range (row_score eps [k * a, k * b, k * c] [d, e, f]))"
  by (auto simp: loss_in_range_def sums_in_range_def in_range_def row_scale)

lemma rows_residual_example:
  "center [1, 0, 0] = [2 / 3, - (1 / 3), - (1 / 3)]"
  "center [2, 5, 1] = [- (2 / 3), 7 / 3, - (5 / 3)]"
  "row_alpha 0 [1, 0, 0] [2, 5, 1] = - (1 / 13)"
  "row_scaled 0 [1, 0, 0] [2, 5, 1] = [2 / 39, - (7 / 39), 5 / 39]"
  "row_residual 0 [1, 0, 0] [2, 5, 1] = 8 / 13"
  "row_ratio 0 [1, 0, 0] [2, 5, 1] = 1 / 12"
  "row_score 0 [1, 0, 0] [2, 5, 1] = 10 * log 10 (1 / 12)"
proof -
  show c: "center [1, 0, 0] = [2 / 3, - (1 / 3), - (1 / 3)]"
    "center [2, 5, 1] = [- (2 / 3), 7 / 3, - (5 / 3)]"
    by (simp_all add: center_def)
  show a: "row_alpha 0 [1, 0, 0] [2, 5, 1] = - (1 / 13)"
    unfolding row_alpha_def c by (simp add: bcast_def sumsq_def power2_eq_square)
  show s: "row_scaled 0 [1, 0, 0] [2, 5, 1] = [2 / 39, - (7 / 39), 5 / 39]"
    unfolding row_scaled_def a c by simp
  show r: "row_residual 0 [1, 0, 0] [2, 5, 1] = 8 / 13"
    unfolding row_residual_def s c by (simp add: bcast_def sumsq_def power2_eq_square)
  show q: "row_ratio 0 [1, 0, 0] [2, 5, 1] = 1 / 12"
    unfolding row_ratio_def s r by (simp add: sumsq_def power2_eq_square)
  show "row_score 0 [1, 0, 0] [2, 5, 1] = 10 * log 10 (1 / 12)"
    unfolding row_score_def q by simp
qed

lemma rows_residual_example_tripled:
  "center [3, 0, 0] = [2, - 1, - 1]"
  "row_alpha 0 [3, 0, 0] [2, 5, 1] = - (3 / 13)"
  "row_scaled 0 [3, 0, 0] [2, 5, 1] = [2 / 13, - (7 / 13), 5 / 13]"
  "row_residual 0 [3, 0, 0] [2, 5, 1] = 72 / 13"
  "row_ratio 0 [3, 0, 0] [2, 5, 1] = 1 / 12"
  "row_score 0 [3, 0, 0] [2, 5, 1] = 10 * log 10 (1 / 12)"
proof -
  note c = rows_residual_example(2)
  show d: "center [3, 0, 0] = [2, - 1, - 1]"
    by (simp add: center_def)
  show a: "row_alpha 0 [3, 0, 0] [2, 5, 1] = - (3 / 13)"
    unfolding row_alpha_def c d by (simp add: bcast_def sumsq_def power2_eq_square)
  show s: "row_scaled 0 [3, 0, 0] [2, 5, 1] = [2 / 13, - (7 / 13), 5 / 13]"
    unfolding row_scaled_def a c by simp
  show r: "row_residual 0 [3, 0, 0] [2, 5, 1] = 72 / 13"
    unfolding row_residual_def s d by (simp add: bcast_def sumsq_def power2_eq_square)
  show q: "row_ratio 0 [3, 0, 0] [2, 5, 1] = 1 / 12"
    unfolding row_ratio_def s r by (simp add: sumsq_def power2_eq_square)
  show "row_score 0 [3, 0, 0] [2, 5, 1] = 10 * log 10 (1 / 12)"
    unfolding row_score_def q by simp
qed

lemma loss_residual_example:
  "SI_SDR_forward 0 (of_list [1, 1, 1, 3] [1, 0, 0]) (of_list [1, 1, 1, 3] [2, 5, 1])
     = Inr (Some (- (10 * log 10 (1 / 12))))"
  unfolding single_triple si_sdr_row_rows rows_residual_example
  by (simp add: rows_residual_example(2) sumsq_def power2_eq_square)

lemma in_range_residual_example:
  "loss_in_range 0 (of_list [1, 1, 1, 3] [1, 0, 0]) (of_list [1, 1, 1, 3] [2, 5, 1])"
  "loss_in_range 0 (scale 3 (of_list [1, 1, 1, 3] [1, 0, 0])) (of_list [1, 1, 1, 3] [2, 5, 1])"
proof -
  have lg: "in_range (log 10 (1 / 12))" "in_range (10 * log 10 (1 / 12))"
    by (rule in_range_log10; simp)+
  show "loss_in_range 0 (of_list [1, 1, 1, 3] [1, 0, 0]) (of_list [1, 1, 1, 3] [2, 5, 1])"
    unfolding loss_in_range_single_3 row_in_range_def center_in_range_def sumsq_in_range_def
      rows_residual_example all_in_range_def
    using lg by (simp add: bcast_def sumsq_def in_range_small sums_in_range_def power2_eq_square)
  show "loss_in_range 0 (scale 3 (of_list [1, 1, 1, 3] [1, 0, 0])) (of_list [1, 1, 1, 3] [2, 5, 1])"
    unfolding loss_in_range_scale_3 mult_1_right mult_zero_right row_in_range_def
      center_in_range_def sumsq_in_range_def rows_residual_example_tripled
      rows_residual_example(2) all_in_range_def
    using lg by (simp add: bcast_def sumsq_def in_range_small sums_in_range_def power2_eq_square)
qed



subsection \<open>The prediction identical to its target\<close>


lemma sum_list_map2_self: "sum_list (map2 (*) xs xs) = sumsq xs"
  unfolding sumsq_def by (induction xs) (simp_all add: power2_eq_square)

lemma sumsq_map2_minus_self: "sumsq (map2 (-) xs xs) = 0"
  unfolding sumsq_def by (induction xs) simp_all

lemma map_mult_one: "map ((*) (1::real)) xs = xs"
  by (induction xs) simp_all

lemma si_sdr_row_alpha_one:
  assumes "0 < eps" "length p = length t"
    and "sum_list (map2 (*) (center p) (center t)) = sumsq (center t)"
  shows "si_sdr_row eps p t
    = Some (10 * log 10 (sumsq (center t) / (sumsq (map2 (-) (center p) (center t)) + eps) + eps))"
proof -
  have "sumsq (center t) + eps \<noteq> 0" using sumsq_nonneg [of "center t"] assms(1) by linarith
  then have "(sum_list (bcast (*) (center p) (center t)) + eps) / (sumsq (center t) + eps) = 1"
    using assms(2,3) by (simp add: bcast_def)
  then show ?thesis
    unfolding si_sdr_row_pos_eps [OF assms(1)] map_mult_one using assms(2)
    by (simp only: map_mult_one bcast_same length_center)
qed

lemma si_sdr_row_identical:
  assumes "0 < eps"
  shows "si_sdr_row eps t t = Some (10 * log 10 (sumsq (center t) / eps + eps))"
  using si_sdr_row_alpha_one [OF assms, of t t]
  by (simp add: sum_list_map2_self sumsq_map2_minus_self)

lemma si_sdr_row_score: "0 < eps \<Longrightarrow> si_sdr_row eps p t = Some (row_score eps p t)"
  using sumsq_nonneg [of "center t"] sumsq_nonneg [of "bcast (-) (center p) (row_scaled eps p t)"]
    sumsq_nonneg [of "row_scaled eps p t"]
  unfolding si_sdr_row_rows row_ratio_def row_residual_def
  by (smt (verit) divide_nonneg_pos)

lemma row_score_le_identical:
  assumes "0 < eps"
  shows "row_score eps p t \<le> 10 * log 10 (sumsq (center t) / eps + eps)
    \<longleftrightarrow> sumsq (center t) = 0
        \<or> ((row_alpha eps p t)\<^sup>2 - 1) * eps \<le> row_residual eps p t"
proof -
  define E where "E = sumsq (center t)"
  define a where "a = row_alpha eps p t"
  define R where "R = row_residual eps p t"
  have E: "0 \<le> E" and R: "0 \<le> R"
    unfolding E_def R_def row_residual_def by (rule sumsq_nonneg)+
  have Re: "0 < R + eps" using R assms by linarith
  have s: "sumsq (row_scaled eps p t) = a\<^sup>2 * E"
    unfolding row_scaled_def sumsq_scale a_def E_def ..
  have score: "row_score eps p t = 10 * log 10 (a\<^sup>2 * E / (R + eps) + eps)"
    unfolding row_score_def row_ratio_def s R_def ..
  have "0 \<le> a\<^sup>2 * E / (R + eps)"
    using E Re by (intro divide_nonneg_pos mult_nonneg_nonneg) simp_all
  then have pl: "0 < a\<^sup>2 * E / (R + eps) + eps"
    using assms by linarith
  have "0 \<le> E / eps"
    using E assms by (intro divide_nonneg_pos) simp_all
  then have pr: "0 < E / eps + eps"
    using assms by linarith
  have "row_score eps p t \<le> 10 * log 10 (E / eps + eps)
      \<longleftrightarrow> a\<^sup>2 * E / (R + eps) \<le> E / eps"
    unfolding score using pl pr by simp
  also have "\<dots> \<longleftrightarrow> a\<^sup>2 * E * eps \<le> E * (R + eps)"
    using Re assms by (simp add: divide_le_eq pos_le_divide_eq mult.commute)
  also have "\<dots> \<longleftrightarrow> E * ((a\<^sup>2 - 1) * eps) \<le> E * R"
    by (simp add: algebra_simps)
  also have "\<dots> \<longleftrightarrow> E = 0 \<or> (a\<^sup>2 - 1) * eps \<le> R"
  proof (cases "E = 0")
    case True
    then show ?thesis by simp
  next
    case False
    then have "0 < E" using E by simp
    then show ?thesis using False by (simp add: mult_le_cancel_left_pos)
  qed
  finally show ?thesis unfolding E_def a_def R_def .
qed

lemma row_residual_nonneg: "0 \<le> row_residual eps p t"
  unfolding row_residual_def by (rule sumsq_nonneg)

lemma rows_near_example:
  "center [1, 0, - 1] = [1, 0, - 1]" "center [0, 1, - 1] = [0, 1, - 1]"
  "row_alpha (1 / 10 ^ 8) [0, 1, - 1] [1, 0, - 1] = 100000001 / 200000001"
  "row_alpha (1 / 10 ^ 8) [1, 0, - 1] [1, 0, - 1] = 1"
  "row_scaled (1 / 10 ^ 8) [1, 0, - 1] [1, 0, - 1] = [1, 0, - 1]"
  "row_residual (1 / 10 ^ 8) [1, 0, - 1] [1, 0, - 1] = 0"
  "row_ratio (1 / 10 ^ 8) [1, 0, - 1] [1, 0, - 1] = 200000000"
  "row_score (1 / 10 ^ 8) [1, 0, - 1] [1, 0, - 1] = 10 * log 10 (20000000000000001 / 100000000)"
proof -
  show c: "center [1, 0, - 1] = [1, 0, - 1]" "center [0, 1, - 1] = [0, 1, - 1]"
    by (simp_all add: center_def)
  show "row_alpha (1 / 10 ^ 8) [0, 1, - 1] [1, 0, - 1] = 100000001 / 200000001"
    unfolding row_alpha_def c by (simp add: bcast_def sumsq_def)
  show a: "row_alpha (1 / 10 ^ 8) [1, 0, - 1] [1, 0, - 1] = 1"
    unfolding row_alpha_def c by (simp add: bcast_def sumsq_def)
  show s: "row_scaled (1 / 10 ^ 8) [1, 0, - 1] [1, 0, - 1] = [1, 0, - 1]"
    unfolding row_scaled_def a c by simp
  show r: "row_residual (1 / 10 ^ 8) [1, 0, - 1] [1, 0, - 1] = 0"
    unfolding row_residual_def s c by (simp add: bcast_def sumsq_def)
  show q: "row_ratio (1 / 10 ^ 8) [1, 0, - 1] [1, 0, - 1] = 200000000"
    unfolding row_ratio_def s r by (simp add: sumsq_def)
  show "row_score (1 / 10 ^ 8) [1, 0, - 1] [1, 0, - 1]
      = 10 * log 10 (20000000000000001 / 100000000)"
    unfolding row_score_def q by simp
qed

lemma in_range_near_example:
  "loss_in_range (1 / 10 ^ 8) (of_list [1, 1, 1, 3] [1, 0, - 1]) (of_list [1, 1, 1, 3] [1, 0, - 1])"
proof -
  have lg: "in_range (log 10 (20000000000000001 / 100000000))"
    "in_range (10 * log 10 (20000000000000001 / 100000000))"
    by (rule in_range_log10; simp)+
  show ?thesis
    unfolding loss_in_range_single_3 row_in_range_def center_in_range_def sumsq_in_range_def
      rows_near_example all_in_range_def
    using lg by (simp add: bcast_def sumsq_def in_range_small sums_in_range_def)
qed



section \<open>Properties of the separation model\<close>

lemma reshape_infer_query:
  assumes "reshape_infer (B * S * L * d) [B * S, T] = Some d" "0 < d"
  shows "T = L"
proof -
  from assms(1) have k: "0 < B * S * T" and dv: "(B * S * L * d) mod (B * S * T) = 0"
    and q: "(B * S * L * d) div (B * S * T) = d"
    by (auto simp: reshape_infer_def Let_def split: if_splits)
  from dv q have "B * S * L * d = B * S * T * d"
    by (metis mult.commute div_mult_mod_eq add.right_neutral)
  then have "(B * S * d) * L = (B * S * d) * T" by (simp add: mult_ac)
  moreover have "0 < B * S * d" using k assms(2) by simp
  ultimately show ?thesis by simp
qed

lemma f_relu_nonneg: "f_relu v = NaN \<or> nonneg (f_relu v)"
  by (cases v) (simp_all add: nonneg_def)

lemma reshape_output:
  "n = B * S \<Longrightarrow>
   reshape [B, S, T, M] (relu (linear d M W b \<lparr>shape = [n, T, d], elem = dec\<rparr>))
     = Some \<lparr>shape = [B, S, T, M],
             elem = elem (relu (linear d M W b \<lparr>shape = [n, T, d], elem = dec\<rparr>))\<rparr>"
  by (simp add: reshape_def numel_def relu_def linear_def mult.assoc)

lemma forward_matching:
  assumes "shape x = [B, n_mels m, seq_len m]" "0 < B" "0 < n_mels m" "0 < seq_len m"
    and "0 < n_sources m" "training m \<longrightarrow> B * n_mels m * seq_len m \<noteq> 1"
  shows "\<exists>y. forward m dec x = Inr y \<and> shape y = [B, n_sources m, n_mels m, seq_len m]
            \<and> (\<forall>i. elem y i = NaN \<or> nonneg (elem y i))"
proof -
  have q: "reshape_infer (B * n_sources m * seq_len m * d_model m) [B * n_sources m, seq_len m]
      = Some (d_model m)"
    using assms(2,4,5) by (simp add: reshape_infer_def)
  let ?y = "permute_0132 \<lparr>shape = [B, n_sources m, seq_len m, n_mels m],
      elem = elem (relu (linear (d_model m) (n_mels m) (out_weight m) (out_bias m)
               \<lparr>shape = [B * n_sources m, seq_len m, d_model m], elem = dec\<rparr>))\<rparr>"
  have r: "forward m dec x = Inr ?y"
    unfolding forward_def Let_def
    using assms q by (simp add: broadcast_dim_def reshape_output)
  have s: "shape ?y = [B, n_sources m, n_mels m, seq_len m]"
    by (simp add: permute_0132_def)
  have n: "elem ?y i = NaN \<or> nonneg (elem ?y i)" for i
    by (simp add: permute_0132_def relu_def f_relu_nonneg)
  show ?thesis using r s n by blast
qed

lemma forward_returns_only_matching:
  assumes "forward m dec x = Inr y" "0 < d_model m"
  shows "\<exists>B. shape x = [B, n_mels m, seq_len m]"
proof -
  from assms(1) obtain B M T where sh: "shape x = [B, M, T]"
    by (auto simp: forward_def split: list.splits)
  from assms(1) sh have M: "M = n_mels m"
    by (auto simp: forward_def Let_def split: if_splits option.splits)
  from assms(1) sh
  have "reshape_infer (B * n_sources m * seq_len m * d_model m) [B * n_sources m, T]
      = Some (d_model m)"
    by (auto simp: forward_def Let_def split: if_splits option.splits)
  then have "T = seq_len m" using assms(2) by (rule reshape_infer_query)
  with sh M show ?thesis by simp
qed

lemma forward_raise_sites:
  assumes "shape x = [B, M, T]" "0 < M" "0 < T" "\<not> (M = n_mels m \<and> T = seq_len m)"
    and "\<not> (training m \<and> B * M * T = 1)" and "0 < d_model m"
  shows "forward m dec x \<in> {Inl (ShapeError FlattenProj), Inl (ShapeError PosEncodingAdd),
           Inl (ShapeError QueryReshape), Inl (ShapeError Decoder)}"
proof (cases "M = n_mels m")
  case False
  then show ?thesis using assms(1,2,3,5) by (simp add: forward_def)
next
  case True
  with assms(4) have T: "T \<noteq> seq_len m" by simp
  let ?S = "n_sources m"
  have nq: "reshape_infer (B * ?S * seq_len m * d_model m) [B * ?S, T] \<noteq> Some (d_model m)"
    using reshape_infer_query [OF _ assms(6)] T by blast
  have nm: "\<exists>dm. reshape_infer (B * ?S * T' * d_model m) [B * ?S, T] = Some dm"
    if "reshape_infer (B * ?S * seq_len m * d_model m) [B * ?S, T] = Some dq"
      "broadcast_dim T (min T (seq_len m)) = Some T'"
    for dq T'
  proof -
    from that(1) have k: "0 < B * ?S * T"
      by (auto simp: reshape_infer_def Let_def split: if_splits)
    from that(2) have "T' = T \<or> T' = 0"
      by (auto simp: broadcast_dim_def min_def split: if_splits)
    then have "(B * ?S * T' * d_model m) mod (B * ?S * T) = 0"
      by auto
    then show ?thesis using k by (simp add: reshape_infer_def)
  qed
  show ?thesis
  proof (cases "broadcast_dim T (min T (seq_len m))")
    case None
    then show ?thesis using assms(1,2,3,5) True by (simp add: forward_def)
  next
    case (Some T')
    show ?thesis
    proof (cases "reshape_infer (B * ?S * seq_len m * d_model m) [B * ?S, T]")
      case None
      then show ?thesis using assms(1,2,3,5) True Some by (simp add: forward_def)
    next
      case (Some dq)
      with nq have dq: "dq \<noteq> d_model m" by simp
      from nm [OF Some \<open>broadcast_dim T (min T (seq_len m)) = Some T'\<close>]
      obtain dm where "reshape_infer (B * ?S * T' * d_model m) [B * ?S, T] = Some dm" ..
      then show ?thesis
        using assms(1,2,3,5) True Some dq \<open>broadcast_dim T (min T (seq_len m)) = Some T'\<close>
        by (simp add: forward_def)
    qed
  qed
qed

lemma forward_unnamed_800:
  assumes "shape x = [B, 128, 800]" "0 < B"
  shows "forward (separator_unnamed mode W b) dec x = Inl (ShapeError Decoder)"
proof -
  have "reshape_infer (B * 4 * 20000 * 256) [B * 4, 800] = Some 6400"
    using assms(2) by (simp add: reshape_infer_def)
  moreover have "reshape_infer (B * 4 * 800 * 256) [B * 4, 800] = Some 256"
    using assms(2) by (simp add: reshape_infer_def)
  ultimately show ?thesis
    using assms(1) by (simp add: forward_def separator_unnamed_def broadcast_dim_def)
qed

lemma f_add_NaN [simp]: "f_add v NaN = NaN"
  by (cases v) simp_all

lemma foldl_f_add_NaN: "foldl f_add NaN vs = NaN"
  by (induction vs) simp_all

lemma f_sum_NaN: "NaN \<in> set vs \<Longrightarrow> f_sum vs = NaN"
proof -
  have "NaN \<in> set vs \<Longrightarrow> foldl f_add a vs = NaN" for a
  proof (induction vs arbitrary: a)
    case Nil
    then show ?case by simp
  next
    case (Cons v vs)
    then show ?case by (cases "v = NaN") (simp_all add: foldl_f_add_NaN)
  qed
  then show "NaN \<in> set vs \<Longrightarrow> f_sum vs = NaN" by (simp add: f_sum_def)
qed

lemma linear_NaN:
  assumes "0 < n_in"
  shows "elem (linear n_in n_out W b \<lparr>shape = s, elem = (\<lambda>i. NaN)\<rparr>) i = NaN"
proof -
  have "NaN \<in> set (map (\<lambda>j. f_mul NaN (W (i mod n_out * n_in + j))) [0..<n_in])"
    using assms by (auto simp: image_iff intro!: bexI [of _ 0])
  then show ?thesis by (simp add: linear_def f_sum_NaN)
qed

text \<open>
  C1, as stated, fails on inputs of the configured shape: when the decoder delivers NaN,
  the rectifier keeps it and the output holds NaN, which is not non-negative; on an empty
  batch the reshape of the queries cannot infer its last size and raises; a model of one
  frequency bin and one time frame raises in training mode on a batch of one spectrogram,
  since batch normalization refuses a single value per channel; and a model of no
  frequency bin or of no time frame raises in the first convolution, whose kernel needs a
  row and a column.
\<close>

theorem forward_keeps_nan_and_raises:
  "(case forward (separator_optimized False (\<lambda>i. Num 1) (\<lambda>i. Num 0)) (\<lambda>i. NaN)
            \<lparr>shape = [1, 128, 800], elem = (\<lambda>i. Num 0)\<rparr> of
      Inl e \<Rightarrow> None | Inr y \<Rightarrow> Some (shape y, elem y 0, nonneg (elem y 0)))
     = Some ([1, 4, 128, 800], NaN, False)
   \<and> forward (separator_optimized False (\<lambda>i. Num 1) (\<lambda>i. Num 0)) (\<lambda>i. Num 0)
        \<lparr>shape = [0, 128, 800], elem = (\<lambda>i. Num 0)\<rparr>
     = Inl (ShapeError QueryReshape)
   \<and> forward \<lparr>n_mels = 1, seq_len = 1, n_sources = 4, d_model = 256, training = True,
                out_weight = (\<lambda>i. Num 1), out_bias = (\<lambda>i. Num 0)\<rparr> (\<lambda>i. Num 0)
        \<lparr>shape = [1, 1, 1], elem = (\<lambda>i. Num 0)\<rparr>
     = Inl (ShapeError ConvEncoder)
   \<and> forward \<lparr>n_mels = 0, seq_len = 800, n_sources = 4, d_model = 256, training = False,
                out_weight = (\<lambda>i. Num 1), out_bias = (\<lambda>i. Num 0)\<rparr> (\<lambda>i. Num 0)
        \<lparr>shape = [1, 0, 800], elem = (\<lambda>i. Num 0)\<rparr>
     = Inl (ShapeError ConvEncoder)
   \<and> forward \<lparr>n_mels = 128, seq_len = 0, n_sources = 4, d_model = 256, training = False,
                out_weight = (\<lambda>i. Num 1), out_bias = (\<lambda>i. Num 0)\<rparr> (\<lambda>i. Num 0)
        \<lparr>shape = [1, 128, 0], elem = (\<lambda>i. Num 0)\<rparr>
     = Inl (ShapeError ConvEncoder)"
proof -
  have q: "reshape_infer (1 * 4 * 800 * 256) [1 * 4, 800] = Some 256"
    by (simp add: reshape_infer_def)
  have "forward (separator_optimized False (\<lambda>i. Num 1) (\<lambda>i. Num 0)) (\<lambda>i. NaN)
            \<lparr>shape = [1, 128, 800], elem = (\<lambda>i. Num 0)\<rparr>
      = Inr (permute_0132 \<lparr>shape = [1, 4, 800, 128],
               elem = elem (relu (linear 256 128 (\<lambda>i. Num 1) (\<lambda>i. Num 0)
                        \<lparr>shape = [1 * 4, 800, 256], elem = (\<lambda>i. NaN)\<rparr>))\<rparr>)"
    unfolding forward_def Let_def separator_optimized_def
    using q by (simp add: broadcast_dim_def reshape_output)
  then have a: "(case forward (separator_optimized False (\<lambda>i. Num 1) (\<lambda>i. Num 0)) (\<lambda>i. NaN)
            \<lparr>shape = [1, 128, 800], elem = (\<lambda>i. Num 0)\<rparr> of
      Inl e \<Rightarrow> None | Inr y \<Rightarrow> Some (shape y, elem y 0, nonneg (elem y 0)))
     = Some ([1, 4, 128, 800], NaN, False)"
    by (simp add: permute_0132_def relu_def linear_NaN nonneg_def)
  have b: "forward (separator_optimized False (\<lambda>i. Num 1) (\<lambda>i. Num 0)) (\<lambda>i. Num 0)
        \<lparr>shape = [0, 128, 800], elem = (\<lambda>i. Num 0)\<rparr>
     = Inl (ShapeError QueryReshape)"
    by (simp add: forward_def separator_optimized_def broadcast_dim_def reshape_infer_def)
  have c: "forward \<lparr>n_mels = 1, seq_len = 1, n_sources = 4, d_model = 256, training = True,
                out_weight = (\<lambda>i. Num 1), out_bias = (\<lambda>i. Num 0)\<rparr> (\<lambda>i. Num 0)
        \<lparr>shape = [1, 1, 1], elem = (\<lambda>i. Num 0)\<rparr>
     = Inl (ShapeError ConvEncoder)"
    by (simp add: forward_def)
  have d: "forward \<lparr>n_mels = 0, seq_len = 800, n_sources = 4, d_model = 256, training = False,
                out_weight = (\<lambda>i. Num 1), out_bias = (\<lambda>i. Num 0)\<rparr> (\<lambda>i. Num 0)
        \<lparr>shape = [1, 0, 800], elem = (\<lambda>i. Num 0)\<rparr>
     = Inl (ShapeError ConvEncoder)"
    by (simp add: forward_def)
  have e: "forward \<lparr>n_mels = 128, seq_len = 0, n_sources = 4, d_model = 256, training = False,
                out_weight = (\<lambda>i. Num 1), out_bias = (\<lambda>i. Num 0)\<rparr> (\<lambda>i. Num 0)
        \<lparr>shape = [1, 128, 0], elem = (\<lambda>i. Num 0)\<rparr>
     = Inl (ShapeError ConvEncoder)"
    by (simp add: forward_def)
  show ?thesis using a b c d e by (intro conjI)
qed

text \<open>
  C1, amended: for a model with four sources and a non-empty batch of spectrograms of
  shape \<open>(B, n_mels, seq_len)\<close>, with a frequency bin and a time frame at least and, in
  training mode, more than a single value in the batch, \<open>forward\<close> returns a tensor of
  shape \<open>(B, 4, n_mels, seq_len)\<close>, and every value of it is non-negative or NaN, whatever
  the decoder delivers to the final rectifier.
\<close>

theorem forward_shape_rectified:
  assumes "shape x = [B, n_mels m, seq_len m]" "0 < B" "0 < n_mels m" "0 < seq_len m"
    and "n_sources m = 4" and "training m \<longrightarrow> B * n_mels m * seq_len m \<noteq> 1"
  shows "\<exists>y. forward m dec x = Inr y \<and> shape y = [B, 4, n_mels m, seq_len m]
            \<and> (\<forall>i. elem y i = NaN \<or> nonneg (elem y i))"
  using forward_matching [OF assms(1-4) _ assms(6), of dec] assms(5) by simp

lemma forward_small_model:
  "forward \<lparr>n_mels = 2, seq_len = 2, n_sources = 4, d_model = 2, training = False,
             out_weight = (\<lambda>i. [Num 1, Num 0, Num 0, Num (- 1)] ! i),
             out_bias = (\<lambda>i. [Num 0, Num 1] ! i)\<rparr>
     (\<lambda>i. [Num 1, Num 2, Num (- 3), NaN, PInf, Num 0, NInf, Num 5] ! (i mod 8))
     \<lparr>shape = [1, 2, 2], elem = (\<lambda>i. Num 0)\<rparr> = Inr y
   \<Longrightarrow> map (elem y) [0, 1, 2, 3, 4, 5, 6, 7] = [Num 1, NaN, Num 0, NaN, PInf, Num 0, NaN, NaN]"
proof -
  have q: "reshape_infer (1 * 4 * 2 * 2) [1 * 4, 2] = Some 2"
    by (simp add: reshape_infer_def)
  assume "forward \<lparr>n_mels = 2, seq_len = 2, n_sources = 4, d_model = 2, training = False,
             out_weight = (\<lambda>i. [Num 1, Num 0, Num 0, Num (- 1)] ! i),
             out_bias = (\<lambda>i. [Num 0, Num 1] ! i)\<rparr>
     (\<lambda>i. [Num 1, Num 2, Num (- 3), NaN, PInf, Num 0, NInf, Num 5] ! (i mod 8))
     \<lparr>shape = [1, 2, 2], elem = (\<lambda>i. Num 0)\<rparr> = Inr y"
  then have y: "y = permute_0132 \<lparr>shape = [1, 4, 2, 2],
      elem = elem (relu (linear 2 2 (\<lambda>i. [Num 1, Num 0, Num 0, Num (- 1)] ! i)
               (\<lambda>i. [Num 0, Num 1] ! i)
               \<lparr>shape = [1 * 4, 2, 2],
                  elem = (\<lambda>i. [Num 1, Num 2, Num (- 3), NaN, PInf, Num 0, NInf, Num 5] ! (i mod 8))\<rparr>))\<rparr>"
    unfolding forward_def Let_def using q by (simp add: broadcast_dim_def reshape_output)
  show ?thesis
    unfolding y
    by (simp add: permute_0132_def relu_def linear_def f_sum_def upt_0_2 ovf_def
        float32_overflow_def)
qed

theorem forward_shape_rectified_witness:
  "(\<exists>y. forward (separator_optimized True (\<lambda>i. Num 1) (\<lambda>i. Num (- 1))) (\<lambda>i. Num (real i - 7))
          \<lparr>shape = [2, 128, 800], elem = (\<lambda>i. Num 0)\<rparr> = Inr y
      \<and> shape y = [2, 4, 128, 800] \<and> (\<forall>i. elem y i = NaN \<or> nonneg (elem y i)))
   \<and> (\<exists>y. forward \<lparr>n_mels = 2, seq_len = 2, n_sources = 4, d_model = 2, training = False,
                  out_weight = (\<lambda>i. [Num 1, Num 0, Num 0, Num (- 1)] ! i),
                  out_bias = (\<lambda>i. [Num 0, Num 1] ! i)\<rparr>
          (\<lambda>i. [Num 1, Num 2, Num (- 3), NaN, PInf, Num 0, NInf, Num 5] ! (i mod 8))
          \<lparr>shape = [1, 2, 2], elem = (\<lambda>i. Num 0)\<rparr> = Inr y
      \<and> shape y = [1, 4, 2, 2]
      \<and> map (elem y) [0, 1, 2, 3, 4, 5, 6, 7]
          = [Num 1, NaN, Num 0, NaN, PInf, Num 0, NaN, NaN])"
proof
  show "\<exists>y. forward (separator_optimized True (\<lambda>i. Num 1) (\<lambda>i. Num (- 1))) (\<lambda>i. Num (real i - 7))
          \<lparr>shape = [2, 128, 800], elem = (\<lambda>i. Num 0)\<rparr> = Inr y
      \<and> shape y = [2, 4, 128, 800] \<and> (\<forall>i. elem y i = NaN \<or> nonneg (elem y i))"
    using forward_shape_rectified
      [of "\<lparr>shape = [2, 128, 800], elem = (\<lambda>i. Num 0)\<rparr>" 2
          "separator_optimized True (\<lambda>i. Num 1) (\<lambda>i. Num (- 1))" "\<lambda>i. Num (real i - 7)"]
    by (simp add: separator_optimized_def)
  let ?m = "\<lparr>n_mels = 2, seq_len = 2, n_sources = 4, d_model = 2, training = False,
             out_weight = (\<lambda>i. [Num 1, Num 0, Num 0, Num (- 1)] ! i),
             out_bias = (\<lambda>i. [Num 0, Num 1] ! i)\<rparr>"
  let ?dec = "\<lambda>i. [Num 1, Num 2, Num (- 3), NaN, PInf, Num 0, NInf, Num 5] ! (i mod 8)"
  let ?x = "\<lparr>shape = [1, 2, 2], elem = (\<lambda>i. Num 0)\<rparr> :: fl tensor"
  obtain y where y: "forward ?m ?dec ?x = Inr y" "shape y = [1, 4, 2, 2]"
    using forward_shape_rectified [of ?x 1 ?m ?dec] by auto
  show "\<exists>y. forward ?m ?dec ?x = Inr y \<and> shape y = [1, 4, 2, 2]
      \<and> map (elem y) [0, 1, 2, 3, 4, 5, 6, 7] = [Num 1, NaN, Num 0, NaN, PInf, Num 0, NaN, NaN]"
    by (intro exI [of _ y] conjI y forward_small_model [OF y(1)])
qed

lemma forward_site_examples:
  "forward (separator_optimized mode W b) dec \<lparr>shape = [2, 64, 800], elem = f\<rparr>
     = Inl (ShapeError FlattenProj)
   \<and> forward (separator_optimized mode W b) dec \<lparr>shape = [2, 128, 801], elem = f\<rparr>
     = Inl (ShapeError PosEncodingAdd)
   \<and> forward (separator_optimized mode W b) dec \<lparr>shape = [2, 128, 799], elem = f\<rparr>
     = Inl (ShapeError QueryReshape)
   \<and> forward (separator_optimized mode W b) dec \<lparr>shape = [2, 128, 400], elem = f\<rparr>
     = Inl (ShapeError Decoder)"
  by (simp add: forward_def separator_optimized_def broadcast_dim_def reshape_infer_def)

text \<open>
  C10: for a model of positive width, \<open>forward\<close> returns only on an input of shape
  \<open>(B, n_mels, seq_len)\<close> and raises on every other input; a three-dimensional input of
  another shape that the convolutional stack accepts (a frequency bin and a time frame at
  least and, in training mode, more than a single value) raises a shape error at the linear
  projection, the addition of the positional encoding, the reshape of the queries or the
  decoder; and the model of the unnamed notebook, of sequence length 20000, raises at the
  decoder on a non-empty batch of shape \<open>(B, 128, 800)\<close>.
\<close>

theorem forward_raises_unless_configured_shape:
  assumes "0 < d_model m"
  shows "(\<forall>y. forward m dec x = Inr y \<longrightarrow> (\<exists>B. shape x = [B, n_mels m, seq_len m]))
    \<and> ((\<nexists>B. shape x = [B, n_mels m, seq_len m]) \<longrightarrow> (\<exists>e. forward m dec x = Inl e))
    \<and> (\<forall>B M T. shape x = [B, M, T] \<and> 0 < M \<and> 0 < T \<and> \<not> (training m \<and> B * M * T = 1)
           \<and> \<not> (M = n_mels m \<and> T = seq_len m) \<longrightarrow>
         forward m dec x \<in> {Inl (ShapeError FlattenProj), Inl (ShapeError PosEncodingAdd),
           Inl (ShapeError QueryReshape), Inl (ShapeError Decoder)})
    \<and> (\<forall>B. shape x = [B, 128, 800] \<and> 0 < B \<longrightarrow>
         forward (separator_unnamed mode W b) dec x = Inl (ShapeError Decoder))"
proof -
  have a: "\<forall>y. forward m dec x = Inr y \<longrightarrow> (\<exists>B. shape x = [B, n_mels m, seq_len m])"
    using forward_returns_only_matching [OF _ assms] by blast
  have b: "(\<nexists>B. shape x = [B, n_mels m, seq_len m]) \<longrightarrow> (\<exists>e. forward m dec x = Inl e)"
    using a by (cases "forward m dec x") auto
  have c: "\<forall>B M T. shape x = [B, M, T] \<and> 0 < M \<and> 0 < T \<and> \<not> (training m \<and> B * M * T = 1)
           \<and> \<not> (M = n_mels m \<and> T = seq_len m) \<longrightarrow>
         forward m dec x \<in> {Inl (ShapeError FlattenProj), Inl (ShapeError PosEncodingAdd),
           Inl (ShapeError QueryReshape), Inl (ShapeError Decoder)}"
    using forward_raise_sites [OF _ _ _ _ _ assms] by blast
  have d: "\<forall>B. shape x = [B, 128, 800] \<and> 0 < B \<longrightarrow>
         forward (separator_unnamed mode W b) dec x = Inl (ShapeError Decoder)"
    using forward_unnamed_800 by blast
  show ?thesis using a b c d by blast
qed

theorem forward_raises_unless_configured_shape_witness:
  "(\<exists>B. shape \<lparr>shape = [2, 128, 800], elem = (\<lambda>i. Num 0)\<rparr> = [B, 128, 800])
   \<and> (\<exists>e. forward (separator_unnamed True (\<lambda>i. Num 1) (\<lambda>i. Num 0)) (\<lambda>i. Num 0)
            \<lparr>shape = [2, 128, 800], elem = (\<lambda>i. Num 0)\<rparr> = Inl e)
   \<and> forward (separator_unnamed True (\<lambda>i. Num 1) (\<lambda>i. Num 0)) (\<lambda>i. Num 0) \<lparr>shape = [2, 128, 800], elem = (\<lambda>i. Num 0)\<rparr>
       \<in> {Inl (ShapeError FlattenProj), Inl (ShapeError PosEncodingAdd),
           Inl (ShapeError QueryReshape), Inl (ShapeError Decoder)}
   \<and> forward (separator_unnamed True (\<lambda>i. Num 1) (\<lambda>i. Num 0)) (\<lambda>i. Num 0) \<lparr>shape = [2, 128, 800], elem = (\<lambda>i. Num 0)\<rparr>
       = Inl (ShapeError Decoder)"
proof -
  let ?x = "\<lparr>shape = [2, 128, 800], elem = (\<lambda>i. Num 0)\<rparr>"
  let ?u = "separator_unnamed True (\<lambda>i. Num 1) (\<lambda>i. Num 0)"
  let ?o = "separator_optimized True (\<lambda>i. Num 1) (\<lambda>i. Num 0)"
  obtain y where y: "forward ?o (\<lambda>i. Num 0) ?x = Inr y"
    using forward_matching [of ?x 2 ?o "\<lambda>i. Num 0"] by (auto simp: separator_optimized_def)
  have a: "\<exists>B. shape ?x = [B, 128, 800]"
    using forward_raises_unless_configured_shape [of ?o "\<lambda>i. Num 0" ?x] y
    by (simp add: separator_optimized_def)
  have b: "\<exists>e. forward ?u (\<lambda>i. Num 0) ?x = Inl e"
    and c: "forward ?u (\<lambda>i. Num 0) ?x \<in> {Inl (ShapeError FlattenProj),
           Inl (ShapeError PosEncodingAdd), Inl (ShapeError QueryReshape),
           Inl (ShapeError Decoder)}"
    and d: "forward ?u (\<lambda>i. Num 0) ?x = Inl (ShapeError Decoder)"
    using forward_raises_unless_configured_shape [of ?u "\<lambda>i. Num 0" ?x True "\<lambda>i. Num 1" "\<lambda>i. Num 0"]
    by (simp_all add: separator_unnamed_def)
  show ?thesis using a b c d by blast
qed

section \<open>Properties of the dataset\<close>

lemma index_nat:
  "index xs (int i) = (if i < length xs then Inr (xs ! i) else Inl IndexError)"
  by (simp add: index_def Let_def)

lemma getitem_nat:
  "getitem ds (int i) =
     (if i < length (data_X ds) \<and> i < length (data_y ds) then Inr (data_X ds ! i, data_y ds ! i)
      else Inl IndexError)"
  by (simp add: getitem_def index_nat)

lemma fetch_all_in_range:
  assumes "\<forall>i\<in>set idxs. i < length (data_X ds) \<and> i < length (data_y ds)"
  shows "fetch ds idxs = Inr (map (\<lambda>i. (data_X ds ! i, data_y ds ! i)) idxs)"
  using assms by (induction idxs) (simp_all add: getitem_nat)

lemma fetch_out_of_range:
  assumes "\<exists>i\<in>set idxs. length (data_y ds) \<le> i"
  shows "fetch ds idxs = Inl IndexError"
  using assms
proof (induction idxs)
  case Nil
  then show ?case by simp
next
  case (Cons i idxs)
  show ?case
  proof (cases "i < length (data_X ds) \<and> i < length (data_y ds)")
    case True
    with Cons.prems have "\<exists>j\<in>set idxs. length (data_y ds) \<le> j" by auto
    then have "fetch ds idxs = Inl IndexError" by (rule Cons.IH)
    then show ?thesis using True by (simp add: getitem_nat)
  next
    case False
    then show ?thesis by (auto simp: getitem_nat)
  qed
qed

text \<open>
  C6, amended: the dataset checks no count. Its constructor accepts any two collections
  and its length is the number of mixtures. When there are fewer sources than mixtures,
  the access to an item at or beyond the number of sources raises \<open>IndexError\<close>, and so
  does every pass of a loader over all the indices; when there are at least as many sources
  as mixtures, every pass returns the pairs aligned by index, and the sources beyond the
  number of mixtures are never read.
\<close>

theorem dataset_unchecked_counts:
  "SpectrogramDataset_init mixtures sources = Inr \<lparr>data_X = mixtures, data_y = sources\<rparr>
   \<and> len \<lparr>data_X = mixtures, data_y = sources\<rparr> = length mixtures
   \<and> (length sources < length mixtures \<longrightarrow>
        (\<forall>i. length sources \<le> i \<longrightarrow>
           getitem \<lparr>data_X = mixtures, data_y = sources\<rparr> (int i) = Inl IndexError)
        \<and> (\<forall>idxs. set idxs = {..<length mixtures} \<longrightarrow>
             fetch \<lparr>data_X = mixtures, data_y = sources\<rparr> idxs = Inl IndexError))
   \<and> (length mixtures \<le> length sources \<longrightarrow>
        (\<forall>idxs. set idxs \<subseteq> {..<length mixtures} \<longrightarrow>
           fetch \<lparr>data_X = mixtures, data_y = sources\<rparr> idxs
             = Inr (map (\<lambda>i. (mixtures ! i, sources ! i)) idxs)))"
proof -
  let ?ds = "\<lparr>data_X = mixtures, data_y = sources\<rparr>"
  have a: "fetch ?ds idxs = Inl IndexError"
    if "length sources < length mixtures" "set idxs = {..<length mixtures}" for idxs
  proof -
    from that have "length sources \<in> set idxs" by simp
    then have "\<exists>i\<in>set idxs. length (data_y ?ds) \<le> i" by auto
    then show ?thesis by (rule fetch_out_of_range)
  qed
  have b: "fetch ?ds idxs = Inr (map (\<lambda>i. (mixtures ! i, sources ! i)) idxs)"
    if "length mixtures \<le> length sources" "set idxs \<subseteq> {..<length mixtures}" for idxs
  proof -
    from that have "\<forall>i\<in>set idxs. i < length (data_X ?ds) \<and> i < length (data_y ?ds)" by auto
    then show ?thesis using fetch_all_in_range [of idxs ?ds] by simp
  qed
  show ?thesis
    using a b by (simp add: SpectrogramDataset_init_def len_def getitem_nat)
qed

theorem dataset_unchecked_counts_witness:
  "getitem \<lparr>data_X = [1::nat, 2], data_y = [10::nat]\<rparr> (int 1) = Inl IndexError
   \<and> fetch \<lparr>data_X = [1::nat, 2], data_y = [10::nat]\<rparr> [1, 0] = Inl IndexError
   \<and> fetch \<lparr>data_X = [1::nat], data_y = [10::nat, 20]\<rparr> [0] = Inr [(1, 10)]"
proof -
  have short: "length [10::nat] < length [1::nat, 2]" by simp
  have long: "length [1::nat] \<le> length [10::nat, 20]" by simp
  have s: "set [1, 0::nat] = {..<length [1::nat, 2]}" by auto
  have t: "set [0::nat] \<subseteq> {..<length [1::nat]}" by simp
  from dataset_unchecked_counts [of "[1::nat, 2]" "[10::nat]"] short
  have g: "\<forall>i. length [10::nat] \<le> i \<longrightarrow>
             getitem \<lparr>data_X = [1::nat, 2], data_y = [10::nat]\<rparr> (int i) = Inl IndexError"
    and f: "\<forall>idxs. set idxs = {..<length [1::nat, 2]} \<longrightarrow>
             fetch \<lparr>data_X = [1::nat, 2], data_y = [10::nat]\<rparr> idxs = Inl IndexError"
    by blast+
  from dataset_unchecked_counts [of "[1::nat]" "[10::nat, 20]"] long
  have h: "\<forall>idxs. set idxs \<subseteq> {..<length [1::nat]} \<longrightarrow>
             fetch \<lparr>data_X = [1::nat], data_y = [10::nat, 20]\<rparr> idxs
               = Inr (map (\<lambda>i. ([1::nat] ! i, [10::nat, 20] ! i)) idxs)"
    by blast
  have "getitem \<lparr>data_X = [1::nat, 2], data_y = [10::nat]\<rparr> (int 1) = Inl IndexError"
    using g [rule_format, of 1] by simp
  moreover have "fetch \<lparr>data_X = [1::nat, 2], data_y = [10::nat]\<rparr> [1, 0] = Inl IndexError"
    using f s by blast
  moreover have "fetch \<lparr>data_X = [1::nat], data_y = [10::nat, 20]\<rparr> [0] = Inr [(1, 10)]"
    using h t by (metis (no_types, lifting) list.simps(8,9) nth_Cons_0)
  ultimately show ?thesis by blast
qed

text \<open>
  C6, as stated, fails: two mixtures with one source build a dataset without an error and
  the second item raises \<open>IndexError\<close> in the item access; one mixture with two sources
  builds a dataset that returns its one pair and never reads the second source.
\<close>

theorem mismatched_counts_not_validated:
  "SpectrogramDataset_init [1::nat, 2] [10::nat] = Inr \<lparr>data_X = [1, 2], data_y = [10]\<rparr>
   \<and> getitem \<lparr>data_X = [1::nat, 2], data_y = [10::nat]\<rparr> 0 = Inr (1, 10)
   \<and> getitem \<lparr>data_X = [1::nat, 2], data_y = [10::nat]\<rparr> 1 = Inl IndexError
   \<and> SpectrogramDataset_init [1::nat] [10::nat, 20] = Inr \<lparr>data_X = [1], data_y = [10, 20]\<rparr>
   \<and> fetch \<lparr>data_X = [1::nat], data_y = [10::nat, 20]\<rparr> [0] = Inr [(1, 10)]"
  by (simp add: SpectrogramDataset_init_def getitem_def index_def)


section \<open>Properties of the training loops\<close>

subsection \<open>Gradient accumulation\<close>

lemma train_batches_closed:
  "k \<noteq> 0 \<Longrightarrow> train_batches amp k ok bs
     = Inr (concat (map (\<lambda>i. Backward i
                # (if (int i + 1) mod k = 0 then step_and_reset amp (ok i) else [])) bs))"
  by (induction bs) simp_all

lemma mod_int_dvd: "((int i + 1) mod int k = 0) = (k dvd Suc i)"
proof -
  have "(int i + 1) mod int k = int (Suc i mod k)"
    by (simp add: zmod_int add.commute)
  then show ?thesis by (simp add: dvd_eq_mod_eq_0 del: of_nat_Suc)
qed

lemma steps_append [simp]: "steps (xs @ ys) = steps xs + steps ys"
  by (simp add: steps_def)

lemma scaler_steps_append [simp]: "scaler_steps (xs @ ys) = scaler_steps xs + scaler_steps ys"
  by (simp add: scaler_steps_def)

lemma steps_simps [simp]:
  "steps (Backward i # xs) = steps xs" "steps (ZeroGrad # xs) = steps xs"
  "steps (ScalerStep # xs) = steps xs" "steps (ScalerUpdate # xs) = steps xs"
  "steps (OptimizerStep # xs) = Suc (steps xs)" "steps [] = 0"
  by (simp_all add: steps_def)

lemma scaler_steps_simps [simp]:
  "scaler_steps (Backward i # xs) = scaler_steps xs" "scaler_steps (ZeroGrad # xs) = scaler_steps xs"
  "scaler_steps (OptimizerStep # xs) = scaler_steps xs"
  "scaler_steps (ScalerUpdate # xs) = scaler_steps xs"
  "scaler_steps (ScalerStep # xs) = Suc (scaler_steps xs)" "scaler_steps [] = 0"
  by (simp_all add: scaler_steps_def)

lemma step_and_reset_plain: "step_and_reset False ok = [OptimizerStep, ZeroGrad]"
  by (simp add: step_and_reset_def)

lemma step_and_reset_amp: "step_and_reset True ok = scaled_step ok"
  by (simp add: step_and_reset_def scaled_step_def)

lemma steps_batches:
  "steps (concat (map (\<lambda>i. Backward i # (if k dvd Suc i then [OptimizerStep, ZeroGrad] else []))
            [0..<n])) = n div k"
  by (induction n) (simp_all add: div_Suc dvd_eq_mod_eq_0)

lemma scaler_steps_batches:
  "scaler_steps (concat (map (\<lambda>i. Backward i # (if k dvd Suc i then scaled_step (ok i) else []))
            [0..<n])) = n div k"
  by (induction n) (simp_all add: div_Suc dvd_eq_mod_eq_0 scaled_step_def)

lemma steps_batches_amp:
  "steps (concat (map (\<lambda>i. Backward i # (if k dvd Suc i then scaled_step (ok i) else []))
            [0..<n])) = length (filter ok (filter (\<lambda>i. k dvd Suc i) [0..<n]))"
  by (induction n) (simp_all add: scaled_step_def)

lemma length_filter_dvd: "length (filter (\<lambda>i. k dvd Suc i) [0..<n]) = n div k"
  by (induction n) (simp_all add: div_Suc dvd_eq_mod_eq_0)

lemma ceiling_nat_div:
  assumes "0 < k"
  shows "\<lceil>real n / real k\<rceil> = int (n div k + (if k dvd n then 0 else 1))"
proof -
  have "\<lceil>real n / real k\<rceil> = \<lceil>(of_int (int n) :: real) / of_int (int k)\<rceil>" by simp
  also have "\<dots> = - (- int n div int k)" by (rule ceiling_divide_eq_div)
  also have "\<dots> = int (n div k + (if k dvd n then 0 else 1))"
    using assms
    by (simp add: zdiv_zminus1_eq_if zdiv_int dvd_eq_mod_eq_0 zmod_int [symmetric] del: of_nat_mod)
  finally show ?thesis .
qed

text \<open>
  C5, as stated, fails in the mixed-precision branch: the step is left to the gradient
  scaler, which skips the optimizer step when the gradients hold an infinity or a NaN.
  An epoch of one batch with the accumulation count one then has no optimizer step, where
  the claim counts one.
\<close>

theorem scaler_skips_optimizer_step:
  "train_epoch True 1 1 (\<lambda>b. False)
     = Inr [ZeroGrad, Backward 0, ScalerStep, ScalerUpdate, ZeroGrad]
   \<and> steps [ZeroGrad, Backward 0, ScalerStep, ScalerUpdate, ZeroGrad] = 0
   \<and> \<lceil>real 1 / real 1\<rceil> = (1 :: int)"
  by (simp add: train_epoch_def step_and_reset_def)

text \<open>
  C5, amended: in the optimized loop, for an epoch of \<open>n \<ge> 1\<close> batches and an accumulation
  count \<open>k \<ge> 1\<close>, the training part of the epoch is the trace of the specification: a step
  followed by a reset of the gradients exactly after each batch whose index counted from
  one is a multiple of \<open>k\<close>, and one more step and reset at the end of the epoch exactly
  when \<open>n\<close> is no multiple of \<open>k\<close>, at \<open>\<lceil>n / k\<rceil>\<close> points in all. Without mixed precision the
  step is an optimizer step, so the epoch has \<open>\<lceil>n / k\<rceil>\<close> optimizer steps. With mixed
  precision the step is a call of the gradient scaler followed by the update of its
  scale, and the optimizer steps are those of the \<open>\<lceil>n / k\<rceil>\<close> calls that find gradients
  without infinity and NaN.
\<close>

theorem train_epoch_accumulates:
  assumes "0 < k" "0 < n"
  shows "train_epoch False (int k) n ok = Inr (accumulation_trace k n)
    \<and> int (steps (accumulation_trace k n)) = \<lceil>real n / real k\<rceil>
    \<and> train_epoch True (int k) n ok = Inr (accumulation_trace_amp ok k n)
    \<and> int (scaler_steps (accumulation_trace_amp ok k n)) = \<lceil>real n / real k\<rceil>
    \<and> int (length (step_points k n)) = \<lceil>real n / real k\<rceil>
    \<and> steps (accumulation_trace_amp ok k n) = length (filter ok (step_points k n))"
proof -
  have k: "int k \<noteq> 0" using assms(1) by simp
  have last: "((int (n - 1) + 1) mod int k \<noteq> 0) = (\<not> k dvd n)"
    using mod_int_dvd [of "n - 1" k] assms(2) by simp
  have a: "train_epoch False (int k) n ok = Inr (accumulation_trace k n)"
    unfolding train_epoch_def train_batches_closed [OF k] accumulation_trace_def mod_int_dvd last
      step_and_reset_plain
    using assms(2) by simp
  have b: "train_epoch True (int k) n ok = Inr (accumulation_trace_amp ok k n)"
    unfolding train_epoch_def train_batches_closed [OF k] accumulation_trace_amp_def mod_int_dvd
      last step_and_reset_amp
    using assms(2) by simp
  have c: "\<lceil>real n / real k\<rceil> = int (n div k + (if k dvd n then 0 else 1))"
    using assms(1) by (rule ceiling_nat_div)
  have s: "steps (accumulation_trace k n) = n div k + (if k dvd n then 0 else 1)"
    by (simp add: accumulation_trace_def steps_batches)
  have t: "scaler_steps (accumulation_trace_amp ok k n) = n div k + (if k dvd n then 0 else 1)"
    by (simp add: accumulation_trace_amp_def scaler_steps_batches scaled_step_def)
  have p: "length (step_points k n) = n div k + (if k dvd n then 0 else 1)"
    by (simp add: step_points_def length_filter_dvd)
  have u: "steps (accumulation_trace_amp ok k n) = length (filter ok (step_points k n))"
    by (simp add: accumulation_trace_amp_def steps_batches_amp step_points_def scaled_step_def)
  show ?thesis unfolding c using a b s t p u by simp
qed

theorem train_epoch_accumulates_witness:
  "train_epoch False (int 2) 3 (\<lambda>b. b \<noteq> 1)
     = Inr [ZeroGrad, Backward 0, Backward 1, OptimizerStep, ZeroGrad, Backward 2,
            OptimizerStep, ZeroGrad]
   \<and> int (steps (accumulation_trace 2 3)) = \<lceil>real 3 / real 2\<rceil>
   \<and> train_epoch True (int 2) 3 (\<lambda>b. b \<noteq> 1)
     = Inr [ZeroGrad, Backward 0, Backward 1, ScalerStep, ScalerUpdate, ZeroGrad, Backward 2,
            ScalerStep, OptimizerStep, ScalerUpdate, ZeroGrad]
   \<and> int (scaler_steps (accumulation_trace_amp (\<lambda>b. b \<noteq> 1) 2 3)) = \<lceil>real 3 / real 2\<rceil>
   \<and> step_points 2 3 = [1, 2]
   \<and> steps (accumulation_trace_amp (\<lambda>b. b \<noteq> 1) 2 3) = 1"
  using train_epoch_accumulates [of 2 3 "\<lambda>b. b \<noteq> 1"]
  by (simp add: accumulation_trace_def accumulation_trace_amp_def upt_0_3 scaled_step_def
      step_points_def)

subsection \<open>The checkpoint rule\<close>

lemma saves_append [simp]: "saves (xs @ ys) = saves xs @ saves ys"
  by (simp add: saves_def)

lemma saves_TorchSave [simp]: "saves [TorchSave p e] = [e]"
  by (simp add: saves_def)

lemma saves_Nil [simp]: "saves [] = []"
  by (simp add: saves_def)

lemma saves_step_and_reset [simp]: "saves (step_and_reset amp ok) = []"
  by (simp add: saves_def step_and_reset_def)

lemma saves_Cons_other [simp]:
  "saves (Backward i # xs) = saves xs" "saves (ZeroGrad # xs) = saves xs"
  "saves (OptimizerStep # xs) = saves xs"
  by (simp_all add: saves_def)

lemma saves_batches:
  "saves (concat (map (\<lambda>i. Backward i # (if c i then step_and_reset amp (ok i) else [])) bs)) = []"
  by (induction bs) simp_all

lemma train_epoch_no_save:
  assumes "k \<noteq> 0" "0 < n"
  shows "\<exists>evs. train_epoch amp k n ok = Inr evs \<and> saves evs = []"
  unfolding train_epoch_def train_batches_closed [OF assms(1)]
  using assms(2) by (simp add: saves_batches)

lemma py_mean_nonempty: "xs \<noteq> [] \<Longrightarrow> py_mean xs = Inr (sum_list xs / real (length xs))"
  by (simp add: py_mean_def)

lemma epoch_optimized_step:
  assumes "gradient_accumulation_steps c \<noteq> 0" "0 < n_train r" "0 < n_test r"
  shows "\<exists>evs. saves evs = [] \<and> epoch_optimized c r e s =
     Inr (if less_than (mean_test_loss r e) (best_loss s)
          then \<lparr>best_loss = Fin (mean_test_loss r e),
                files = (files s)(path_join (results_dir c) ''models/model.pth'' \<mapsto>
                  checkpoint_full e (mean_test_loss r e) (model_state_dict r e)
                    (optimizer_state_dict r e)),
                trace = trace s @ evs @ [TorchSave (path_join (results_dir c) ''models/model.pth'') e]\<rparr>
          else s\<lparr>trace := trace s @ evs\<rparr>)"
proof -
  obtain evs where evs: "train_epoch (use_amp c) (gradient_accumulation_steps c) (n_train r)
      (grads_finite r e) = Inr evs" "saves evs = []"
    using train_epoch_no_save [OF assms(1,2)] by blast
  have "epoch_optimized c r e s =
     Inr (if less_than (mean_test_loss r e) (best_loss s)
          then \<lparr>best_loss = Fin (mean_test_loss r e),
                files = (files s)(path_join (results_dir c) ''models/model.pth'' \<mapsto>
                  checkpoint_full e (mean_test_loss r e) (model_state_dict r e)
                    (optimizer_state_dict r e)),
                trace = trace s @ evs @ [TorchSave (path_join (results_dir c) ''models/model.pth'') e]\<rparr>
          else s\<lparr>trace := trace s @ evs\<rparr>)"
    unfolding epoch_optimized_def evs(1) using assms(2,3)
    by (simp add: py_mean_nonempty mean_test_loss_def Let_def)
  with evs(2) show ?thesis by blast
qed

lemma epoch_plain_step:
  assumes "0 < n_train r"
  shows "\<exists>evs. saves evs = [] \<and> epoch_plain dict r e s =
     Inr (if less_than (mean_train_loss r e) (best_loss s)
          then \<lparr>best_loss = Fin (mean_train_loss r e),
                files = (files s)(''../results/models/model.pth'' \<mapsto>
                  dict e (mean_train_loss r e) (model_state_dict r e) (optimizer_state_dict r e)),
                trace = trace s @ evs @ [TorchSave ''../results/models/model.pth'' e]\<rparr>
          else s\<lparr>trace := trace s @ evs\<rparr>)"
proof -
  let ?evs = "concat (map (\<lambda>b. [ZeroGrad, Backward b, OptimizerStep]) [0..<n_train r])"
  have "saves ?evs = []" by (induction "n_train r") (simp_all add: saves_def)
  moreover have "epoch_plain dict r e s =
     Inr (if less_than (mean_train_loss r e) (best_loss s)
          then \<lparr>best_loss = Fin (mean_train_loss r e),
                files = (files s)(''../results/models/model.pth'' \<mapsto>
                  dict e (mean_train_loss r e) (model_state_dict r e) (optimizer_state_dict r e)),
                trace = trace s @ ?evs @ [TorchSave ''../results/models/model.pth'' e]\<rparr>
          else s\<lparr>trace := trace s @ ?evs\<rparr>)"
    unfolding epoch_plain_def Let_def using assms
    by (simp add: py_mean_nonempty mean_train_loss_def)
  ultimately show ?thesis by blast
qed

lemma run_epochs_checkpoint_rule:
  fixes f :: "nat \<Rightarrow> ('m, 'o) state \<Rightarrow> error + ('m, 'o) state"
  assumes step: "\<And>e s. \<exists>evs. saves evs = [] \<and> f e s =
     Inr (if less_than (mean e) (best_loss s)
          then \<lparr>best_loss = Fin (mean e), files = (files s)(path \<mapsto> d e (mean e)),
                trace = trace s @ evs @ [TorchSave path e]\<rparr>
          else s\<lparr>trace := trace s @ evs\<rparr>)"
  shows "\<exists>s'. run_epochs f [a..<a + n] s = Inr s'
     \<and> saves (trace s') = saves (trace s) @ improving_from (best_loss s) a (map mean [a..<a + n])
     \<and> best_loss s' = best_after (best_loss s) (map mean [a..<a + n])
     \<and> (recorded path d s \<longrightarrow> recorded path d s')"
proof (induction n arbitrary: a s)
  case 0
  show ?case by simp
next
  case (Suc n)
  have up: "[a..<a + Suc n] = a # [Suc a..<Suc a + n]"
    by (simp add: upt_conv_Cons)
  obtain evs where evs: "saves evs = []" and fa: "f a s =
     Inr (if less_than (mean a) (best_loss s)
          then \<lparr>best_loss = Fin (mean a), files = (files s)(path \<mapsto> d a (mean a)),
                trace = trace s @ evs @ [TorchSave path a]\<rparr>
          else s\<lparr>trace := trace s @ evs\<rparr>)"
    using step [of a s] by blast
  define s1 where "s1 = (if less_than (mean a) (best_loss s)
          then \<lparr>best_loss = Fin (mean a), files = (files s)(path \<mapsto> d a (mean a)),
                trace = trace s @ evs @ [TorchSave path a]\<rparr>
          else s\<lparr>trace := trace s @ evs\<rparr>)"
  from Suc.IH [of "Suc a" s1] obtain s' where s':
    "run_epochs f [Suc a..<Suc a + n] s1 = Inr s'"
    "saves (trace s') = saves (trace s1) @ improving_from (best_loss s1) (Suc a) (map mean [Suc a..<Suc a + n])"
    "best_loss s' = best_after (best_loss s1) (map mean [Suc a..<Suc a + n])"
    "recorded path d s1 \<longrightarrow> recorded path d s'"
    by blast
  have r1: "recorded path d s \<Longrightarrow> recorded path d s1"
    by (auto simp: recorded_def s1_def evs split: pyfloat.splits)
  have "run_epochs f [a..<a + Suc n] s = Inr s'"
    unfolding up using fa s'(1) by (simp add: s1_def)
  moreover have "saves (trace s') = saves (trace s) @ improving_from (best_loss s) a (map mean [a..<a + Suc n])"
    unfolding up s'(2) by (simp add: s1_def evs)
  moreover have "best_loss s' = best_after (best_loss s) (map mean [a..<a + Suc n])"
    unfolding up s'(3) by (simp add: s1_def)
  ultimately show ?case using s'(4) r1 by blast
qed

lemma best_after_fold: "best_after (Fin b) vs = Fin (fold min vs b)"
proof (induction vs arbitrary: b)
  case Nil
  show ?case by simp
next
  case (Cons v vs)
  show ?case using Cons [of v] Cons [of b] by (simp add: less_than_def min_def)
qed

lemma best_after_Fin: "best_after (Fin b) vs = Fin (Min (insert b (set vs)))"
  using Min.set_eq_fold [of b vs] by (simp add: best_after_fold)

lemma best_after_PosInf: "vs \<noteq> [] \<Longrightarrow> best_after PosInf vs = Fin (Min (set vs))"
  by (cases vs) (simp_all add: less_than_def best_after_Fin)

lemma improving_from_PosInf_nonempty: "vs \<noteq> [] \<Longrightarrow> improving_from PosInf a vs \<noteq> []"
  by (cases vs) (simp_all add: less_than_def)

lemma train_model_rule:
  assumes "gradient_accumulation_steps c \<noteq> 0" "0 < n_train r" "0 < n_test r"
  shows "\<exists>s. train_model c r fs = Inr s
     \<and> saves (trace s) = spec_writes (map (mean_test_loss r) [0..<num_epochs c])
     \<and> best_loss s = best_after PosInf (map (mean_test_loss r) [0..<num_epochs c])
     \<and> recorded (path_join (results_dir c) ''models/model.pth'')
         (\<lambda>e v. checkpoint_full e v (model_state_dict r e) (optimizer_state_dict r e)) s"
  using run_epochs_checkpoint_rule
    [where mean = "mean_test_loss r" and f = "epoch_optimized c r"
      and path = "path_join (results_dir c) ''models/model.pth''"
      and d = "\<lambda>e v. checkpoint_full e v (model_state_dict r e) (optimizer_state_dict r e)"
      and a = 0 and n = "num_epochs c" and s = "\<lparr>best_loss = PosInf, files = fs, trace = []\<rparr>",
      OF epoch_optimized_step [OF assms]]
  by (simp add: train_model_def spec_writes_def recorded_def)

lemma plain_loop_rule:
  assumes "0 < n_train r"
  shows "\<exists>s. run_epochs (epoch_plain dict r) [0..<n] \<lparr>best_loss = PosInf, files = fs, trace = []\<rparr> = Inr s
     \<and> saves (trace s) = spec_writes (map (mean_train_loss r) [0..<n])
     \<and> best_loss s = best_after PosInf (map (mean_train_loss r) [0..<n])
     \<and> recorded ''../results/models/model.pth''
         (\<lambda>e v. dict e v (model_state_dict r e) (optimizer_state_dict r e)) s"
  using run_epochs_checkpoint_rule
    [where mean = "mean_train_loss r" and f = "epoch_plain dict r"
      and path = "''../results/models/model.pth''"
      and d = "\<lambda>e v. dict e v (model_state_dict r e) (optimizer_state_dict r e)"
      and a = 0 and n = n and s = "\<lparr>best_loss = PosInf, files = fs, trace = []\<rparr>",
      OF epoch_plain_step [OF assms]]
  by (simp add: spec_writes_def recorded_def)

lemma recorded_min:
  assumes "recorded path d s" "best_loss s = best_after PosInf vs" "vs \<noteq> []"
  shows "files s path = Some (d (last (saves (trace s))) (Min (set vs)))"
  using assms by (simp add: recorded_def best_after_PosInf)

lemma upt_0_8: "[0..<8] = [0, 1, 2, 3, 4, 5, 6, 7]"
  by (simp add: upt_rec)

lemma spec_writes_run8:
  "spec_writes [126 / 10, 112 / 10, 109 / 10, 109 / 10, 108 / 10, 134 / 10, 101 / 10, 10]
     = [0, 1, 2, 4, 6, 7]"
  by (simp add: spec_writes_def less_than_def)

lemma Min_run8:
  "Min (set [126 / 10, 112 / 10, 109 / 10, 109 / 10, 108 / 10, 134 / 10, 101 / 10, 10 :: real]) = 10"
  by simp

text \<open>
  C3, amended: every loop starts from a best loss of positive infinity, compares it after
  each epoch to the mean loss of the epoch, and writes a checkpoint exactly on a strict
  improvement. In the optimized \<open>train_model\<close> that mean is the mean validation loss over
  the test loader; the checkpoint left at the end records the minimum of the validation
  means, and for the means 12.6, 11.2, 10.9, 10.9, 10.8, 13.4, 10.1, 10.0 the writes are at
  the epochs 0, 1, 2, 4, 6 and 7, none on the regressing epoch, and the recorded loss is
  10.0. The two plain loops make no validation pass: their mean is the mean training loss.
\<close>

theorem checkpoint_on_strict_improvement:
  assumes "0 < n_train r"
  shows
    "(gradient_accumulation_steps c \<noteq> 0 \<and> 0 < n_test r \<longrightarrow>
       (\<exists>s. train_model c r fs = Inr s
          \<and> saves (trace s) = spec_writes (map (mean_test_loss r) [0..<num_epochs c])
          \<and> (0 < num_epochs c \<longrightarrow>
               (\<exists>ck. files s (path_join (results_dir c) ''models/model.pth'') = Some ck
                  \<and> ck ''loss'' = Some (Loss (Min (set (map (mean_test_loss r) [0..<num_epochs c]))))))
          \<and> (map (mean_test_loss r) [0..<num_epochs c]
                 = [126 / 10, 112 / 10, 109 / 10, 109 / 10, 108 / 10, 134 / 10, 101 / 10, 10] \<longrightarrow>
               saves (trace s) = [0, 1, 2, 4, 6, 7]
               \<and> (\<exists>ck. files s (path_join (results_dir c) ''models/model.pth'') = Some ck
                     \<and> ck ''loss'' = Some (Loss 10)))))
     \<and> (\<exists>s. train_loop_notebook n r fs = Inr s
          \<and> saves (trace s) = spec_writes (map (mean_train_loss r) [0..<n]))
     \<and> (\<exists>s. train_loop_unnamed n r fs = Inr s
          \<and> saves (trace s) = spec_writes (map (mean_train_loss r) [0..<n]))"
proof -
  let ?p = "path_join (results_dir c) ''models/model.pth''"
  let ?vs = "map (mean_test_loss r) [0..<num_epochs c]"
  have opt: "\<exists>s. train_model c r fs = Inr s
          \<and> saves (trace s) = spec_writes ?vs
          \<and> (0 < num_epochs c \<longrightarrow>
               (\<exists>ck. files s ?p = Some ck \<and> ck ''loss'' = Some (Loss (Min (set ?vs)))))
          \<and> (?vs = [126 / 10, 112 / 10, 109 / 10, 109 / 10, 108 / 10, 134 / 10, 101 / 10, 10] \<longrightarrow>
               saves (trace s) = [0, 1, 2, 4, 6, 7]
               \<and> (\<exists>ck. files s ?p = Some ck \<and> ck ''loss'' = Some (Loss 10)))"
    if "gradient_accumulation_steps c \<noteq> 0" "0 < n_test r"
  proof -
    from train_model_rule [OF that(1) assms that(2), of fs] obtain s where s:
      "train_model c r fs = Inr s" "saves (trace s) = spec_writes ?vs"
      "best_loss s = best_after PosInf ?vs"
      "recorded ?p (\<lambda>e v. checkpoint_full e v (model_state_dict r e) (optimizer_state_dict r e)) s"
      by blast
    have wr: "\<exists>ck. files s ?p = Some ck \<and> ck ''loss'' = Some (Loss (Min (set ?vs)))"
      if "?vs \<noteq> []"
      using recorded_min [OF s(4) s(3) that] by (simp add: checkpoint_full_def)
    have a: "0 < num_epochs c \<longrightarrow>
        (\<exists>ck. files s ?p = Some ck \<and> ck ''loss'' = Some (Loss (Min (set ?vs))))"
      using wr by simp
    have b: "?vs = [126 / 10, 112 / 10, 109 / 10, 109 / 10, 108 / 10, 134 / 10, 101 / 10, 10] \<longrightarrow>
          saves (trace s) = [0, 1, 2, 4, 6, 7]
          \<and> (\<exists>ck. files s ?p = Some ck \<and> ck ''loss'' = Some (Loss 10))"
    proof
      assume eq: "?vs = [126 / 10, 112 / 10, 109 / 10, 109 / 10, 108 / 10, 134 / 10, 101 / 10, 10]"
      have "?vs \<noteq> []" unfolding eq by simp
      from wr [OF this]
      show "saves (trace s) = [0, 1, 2, 4, 6, 7]
          \<and> (\<exists>ck. files s ?p = Some ck \<and> ck ''loss'' = Some (Loss 10))"
        unfolding s(2) unfolding eq spec_writes_run8 Min_run8 by simp
    qed
    show ?thesis
      apply (rule exI [of _ s])
      apply (intro conjI)
         apply (rule s(1))
        apply (rule s(2))
       apply (rule a)
      apply (rule b)
      done
  qed
  have nb: "\<exists>s. train_loop_notebook n r fs = Inr s
          \<and> saves (trace s) = spec_writes (map (mean_train_loss r) [0..<n])"
    using plain_loop_rule [OF assms, of checkpoint_states n fs]
    unfolding train_loop_notebook_def by blast
  have un: "\<exists>s. train_loop_unnamed n r fs = Inr s
          \<and> saves (trace s) = spec_writes (map (mean_train_loss r) [0..<n])"
    using plain_loop_rule [OF assms, of checkpoint_full n fs]
    unfolding train_loop_unnamed_def by blast
  show ?thesis using opt nb un by blast
qed

lemma means_run8:
  "map (mean_test_loss run8) [0..<num_epochs config8]
     = [126 / 10, 112 / 10, 109 / 10, 109 / 10, 108 / 10, 134 / 10, 101 / 10, 10]"
  by (simp add: mean_test_loss_def run8_def config8_def upt_0_8 upt_0_2)

theorem checkpoint_on_strict_improvement_witness:
  "\<exists>s. train_model config8 run8 Map.empty = Inr s
     \<and> saves (trace s) = [0, 1, 2, 4, 6, 7]
     \<and> (\<exists>ck. files s ''../results/models/model.pth'' = Some ck \<and> ck ''loss'' = Some (Loss 10))"
proof -
  have h: "0 < n_train run8" "gradient_accumulation_steps config8 \<noteq> 0" "0 < n_test run8"
    by (simp_all add: run8_def config8_def)
  have p: "path_join (results_dir config8) ''models/model.pth'' = ''../results/models/model.pth''"
    by (simp add: path_join_def config8_def)
  show ?thesis
    using checkpoint_on_strict_improvement [OF h(1), of config8 Map.empty 0] h(2,3) means_run8
    unfolding p by blast
qed

lemma upt_0_16: "[0..<16] = [0, 1, 2, 3, 4, 5, 6, 7, 8, 9, 10, 11, 12, 13, 14, 15]"
  by (simp add: upt_rec)

lemma notebook_overfit_saves:
  "map_sum id (\<lambda>s. saves (trace s)) (train_loop_notebook 16 overfit Map.empty)
     = Inr [0, 1, 2, 3, 4, 5, 6, 7, 8, 9, 10, 11, 12, 13, 14, 15]"
proof -
  have n: "0 < n_train overfit" by (simp add: overfit_def)
  have "spec_writes (map (mean_train_loss overfit) [0..<16])
      = [0, 1, 2, 3, 4, 5, 6, 7, 8, 9, 10, 11, 12, 13, 14, 15]"
    by (simp add: mean_train_loss_def overfit_def upt_0_16 spec_writes_def less_than_def)
  then show ?thesis
    using plain_loop_rule [OF n, of checkpoint_states 16 Map.empty]
    unfolding train_loop_notebook_def by auto
qed

text \<open>
  C3, as stated, fails on the loop of \<open>train_model.ipynb\<close>: on a run whose training loss
  falls in each of the 16 epochs while the loss on the test set rises, the loop writes
  after every epoch, where the rule on the validation losses writes after the first only.
\<close>

theorem notebook_loop_ignores_validation:
  "map_sum id (\<lambda>s. saves (trace s)) (train_loop_notebook 16 overfit Map.empty)
     = Inr [0, 1, 2, 3, 4, 5, 6, 7, 8, 9, 10, 11, 12, 13, 14, 15]
   \<and> spec_writes (map (mean_test_loss overfit) [0..<16]) = [0]"
proof -
  have "spec_writes (map (mean_test_loss overfit) [0..<16]) = [0]"
    by (simp add: mean_test_loss_def overfit_def upt_0_16 spec_writes_def less_than_def)
  then show ?thesis using notebook_overfit_saves by simp
qed

lemma dom_checkpoint_states:
  "dom (checkpoint_states e v ms os) = {''model_state_dict'', ''optimizer_state_dict''}"
  by (auto simp: checkpoint_states_def split: if_splits)

lemma dom_checkpoint_full:
  "dom (checkpoint_full e v ms os)
     = {''epoch'', ''model_state_dict'', ''optimizer_state_dict'', ''loss''}"
  by (auto simp: checkpoint_full_def split: if_splits)

lemma train_model_checkpoint_keys:
  assumes "gradient_accumulation_steps c \<noteq> 0" "0 < n_train r" "0 < n_test r" "0 < num_epochs c"
  shows "\<exists>s ck. train_model c r fs = Inr s
     \<and> files s (path_join (results_dir c) ''models/model.pth'') = Some ck
     \<and> dom ck = {''epoch'', ''model_state_dict'', ''optimizer_state_dict'', ''loss''}"
proof -
  from train_model_rule [OF assms(1-3), of fs] obtain s where s:
    "train_model c r fs = Inr s"
    "best_loss s = best_after PosInf (map (mean_test_loss r) [0..<num_epochs c])"
    "recorded (path_join (results_dir c) ''models/model.pth'')
       (\<lambda>e v. checkpoint_full e v (model_state_dict r e) (optimizer_state_dict r e)) s"
    by blast
  have "map (mean_test_loss r) [0..<num_epochs c] \<noteq> []" using assms(4) by simp
  from recorded_min [OF s(3) s(2) this] s(1) show ?thesis
    by (simp add: dom_checkpoint_full)
qed

text \<open>
  C4: a checkpoint holds the parameters, the optimizer state, the epoch index and the
  loss. The loop of \<open>train_model.ipynb\<close> breaks it: the file it leaves after the 16
  epochs of a run holds the two state dictionaries and neither an epoch nor a loss.
\<close>

theorem notebook_checkpoint_lacks_epoch_and_loss:
  "map_sum id (\<lambda>s. map_option dom (files s ''../results/models/model.pth''))
       (train_loop_notebook 16 overfit Map.empty)
     = Inr (Some {''model_state_dict'', ''optimizer_state_dict''})"
proof -
  have n: "0 < n_train overfit" by (simp add: overfit_def)
  from plain_loop_rule [OF n, of checkpoint_states 16 Map.empty] obtain s where s:
    "train_loop_notebook 16 overfit Map.empty = Inr s"
    "best_loss s = best_after PosInf (map (mean_train_loss overfit) [0..<16])"
    "recorded ''../results/models/model.pth''
       (\<lambda>e v. checkpoint_states e v (model_state_dict overfit e) (optimizer_state_dict overfit e)) s"
    unfolding train_loop_notebook_def by blast
  have "map (mean_train_loss overfit) [0..<16] \<noteq> []" by simp
  from recorded_min [OF s(3) s(2) this] show ?thesis
    unfolding s(1) by (simp add: dom_checkpoint_states)
qed


end
